theory Spec2Isabelle
  imports
    Complex_Main
    "HOL-Library.Sublist"
    "HOL-Library.Char_ord"
    "HOL-Library.List_Lexorder"
    "HOL-Library.Multiset"
begin

section \<open>Exceptions\<close>

text \<open>
  The exception classes met in the code, each with its message: \<^verbatim>\<open>Error\<close> and
  \<^verbatim>\<open>TypeError\<close>, which the matchers throw, and \<^verbatim>\<open>SyntaxError\<close>, which the constructor
  \<^verbatim>\<open>RegExp\<close> throws. A function that may throw returns a sum, with the exception on the
  left.
\<close>

datatype error = Error string | TypeError string | SyntaxError string

section \<open>The DOM capability model\<close>

text \<open>
  The serializer of \<^verbatim>\<open>src/testing/html-serializer.ts\<close> reads only a few members of
  a DOM node: its node type, \<^verbatim>\<open>localName\<close> and \<^verbatim>\<open>tagName\<close>, the attribute list, an
  optional \<^verbatim>\<open>shadowRoot\<close>, the optional \<^verbatim>\<open>__childNodes\<close> list that Stencil leaves on
  scoped components, \<^verbatim>\<open>childNodes\<close> and \<^verbatim>\<open>textContent\<close>. The datatypes below hold
  exactly these members. A member that may be missing, \<^verbatim>\<open>null\<close> or \<^verbatim>\<open>undefined\<close> is an
  option. JavaScript strings are modelled as \<^typ>\<open>string\<close>.
\<close>

record attr =
  attrName :: string
  attrPrefix :: "string option"
  attrLocalName :: "string option"
  attrValue :: string

datatype element =
  Element (localName: "string option") (tagName: string) (attributes: "attr list option")
          (shadowRoot: "shadowroot option") (slotChildNodes: "node list option")
          (childNodes: "node list")
and shadowroot =
  ShadowRoot (delegatesFocus: bool) (shadowChildNodes: "node list")
and node =
  ElementNode element
| TextNode string
| CommentNode string
| OtherNode

text \<open>
  \<^const>\<open>ElementNode\<close> is a child of node type 1, \<^const>\<open>TextNode\<close> of type 3 and
  \<^const>\<open>CommentNode\<close> of type 8, each text-like node with its \<^verbatim>\<open>textContent\<close>;
  \<^const>\<open>OtherNode\<close> stands for a child of any other node type, which all three loops of
  the serializer pass over. \<^const>\<open>slotChildNodes\<close> is the member \<^verbatim>\<open>__childNodes\<close>.
\<close>

section \<open>The serializer\<close>

definition VOID_ELEMENTS :: "string list" where
  "VOID_ELEMENTS =
     [''area'', ''base'', ''br'', ''col'', ''embed'', ''hr'', ''img'', ''input'',
      ''link'', ''meta'', ''param'', ''source'', ''track'', ''wbr'']"

text \<open>
  \<^verbatim>\<open>toLowerCase\<close> on the characters a \<^typ>\<open>char\<close> can hold (code units below 256):
  the letters A to Z and the capital letters from U+00C0 to U+00DE have a lower-case
  form, 32 code units higher; every other character is kept.
\<close>

definition upperCaseLetters :: string where
  "upperCaseLetters =
     ''ABCDEFGHIJKLMNOPQRSTUVWXYZ'' @
     [
        CHR 0xC0, CHR 0xC1, CHR 0xC2, CHR 0xC3, CHR 0xC4, CHR 0xC5, CHR 0xC6, CHR 0xC7,
        CHR 0xC8, CHR 0xC9, CHR 0xCA, CHR 0xCB, CHR 0xCC, CHR 0xCD, CHR 0xCE, CHR 0xCF,
        CHR 0xD0, CHR 0xD1, CHR 0xD2, CHR 0xD3, CHR 0xD4, CHR 0xD5, CHR 0xD6, CHR 0xD8,
        CHR 0xD9, CHR 0xDA, CHR 0xDB, CHR 0xDC, CHR 0xDD, CHR 0xDE]"

definition lowerCaseLetters :: string where
  "lowerCaseLetters =
     ''abcdefghijklmnopqrstuvwxyz'' @
     [
        CHR 0xE0, CHR 0xE1, CHR 0xE2, CHR 0xE3, CHR 0xE4, CHR 0xE5, CHR 0xE6, CHR 0xE7,
        CHR 0xE8, CHR 0xE9, CHR 0xEA, CHR 0xEB, CHR 0xEC, CHR 0xED, CHR 0xEE, CHR 0xEF,
        CHR 0xF0, CHR 0xF1, CHR 0xF2, CHR 0xF3, CHR 0xF4, CHR 0xF5, CHR 0xF6, CHR 0xF8,
        CHR 0xF9, CHR 0xFA, CHR 0xFB, CHR 0xFC, CHR 0xFD, CHR 0xFE]"

definition toLowerCase_char :: "char \<Rightarrow> char" where
  "toLowerCase_char c =
     (case map_of (zip upperCaseLetters lowerCaseLetters) c of
        Some l \<Rightarrow> l
      | None \<Rightarrow> c)"

definition toLowerCase :: "string \<Rightarrow> string" where
  "toLowerCase s = map toLowerCase_char s"

text \<open>A string member is truthy when it is present and not empty.\<close>

definition truthy :: "string option \<Rightarrow> bool" where
  "truthy s = (case s of None \<Rightarrow> False | Some t \<Rightarrow> t \<noteq> [])"

text \<open>\<^verbatim>\<open>(elem as any).localName || elem.tagName.toLowerCase()\<close>\<close>

definition elementTag :: "element \<Rightarrow> string" where
  "elementTag elem =
     (if truthy (localName elem) then the (localName elem) else toLowerCase (tagName elem))"

text \<open>The body of the attribute loop: one attribute, with its leading blank.\<close>

definition serializeAttr :: "attr \<Rightarrow> string" where
  \<open>serializeAttr a =
     (let nm = (if truthy (attrPrefix a) \<and> truthy (attrLocalName a)
                then the (attrPrefix a) @ '':'' @ the (attrLocalName a)
                else attrName a)
      in if attrValue a = [] then '' '' @ nm
         else '' '' @ nm @ ''="'' @ attrValue a @ ''"'')\<close>

definition serializeAttributes :: "attr list option \<Rightarrow> string" where
  "serializeAttributes as = (case as of None \<Rightarrow> [] | Some l \<Rightarrow> concat (map serializeAttr l))"

definition openingTag :: "element \<Rightarrow> string" where
  "openingTag elem = ''<'' @ elementTag elem @ serializeAttributes (attributes elem) @ ''>''"

definition shadowRootTag :: "shadowroot \<Rightarrow> string" where
  "shadowRootTag sr =
     ''<mock:shadow-root'' @ (if delegatesFocus sr then '' shadowrootdelegatesfocus'' else [])
       @ ''>''"

definition commentMarkup :: "string \<Rightarrow> string" where
  "commentMarkup t = ''<!--'' @ t @ ''-->''"

text \<open>
  \<^verbatim>\<open>serializeElementWithShadow\<close> on an element (the part after the fragment branch),
  with its two loops: the one over the children of the shadow root, which skips
  \<^verbatim>\<open>style\<close> elements when asked to, and the one over the light children. The recursion
  follows the source: only children of node type 1 are serialized recursively.
\<close>

function serializeElementWithShadow :: "element \<Rightarrow> bool \<Rightarrow> bool \<Rightarrow> string"
  and shadowChildrenLoop :: "node list \<Rightarrow> bool \<Rightarrow> bool \<Rightarrow> string"
  and childrenLoop :: "node list \<Rightarrow> bool \<Rightarrow> bool \<Rightarrow> string"
where
  "serializeElementWithShadow elem excludeStyles serializeShadowRoot =
     (let html = openingTag elem;
          hasShadowRoot = (serializeShadowRoot \<and> shadowRoot elem \<noteq> None);
          hasStencilPolyfill = (serializeShadowRoot \<and> slotChildNodes elem \<noteq> None);
          html = (if hasShadowRoot
                  then html @ shadowRootTag (the (shadowRoot elem))
                         @ shadowChildrenLoop (shadowChildNodes (the (shadowRoot elem)))
                             excludeStyles serializeShadowRoot
                         @ ''</mock:shadow-root>''
                  else html);
          html = html @ (if hasStencilPolyfill
                         then childrenLoop (the (slotChildNodes elem))
                                excludeStyles serializeShadowRoot
                         else childrenLoop (childNodes elem) excludeStyles serializeShadowRoot)
      in if elementTag elem \<notin> set VOID_ELEMENTS
         then html @ ''</'' @ elementTag elem @ ''>''
         else html)"
| "shadowChildrenLoop [] excludeStyles serializeShadowRoot = []"
| "shadowChildrenLoop (child # rest) excludeStyles serializeShadowRoot =
     (case child of
        ElementNode childElem \<Rightarrow>
          (if excludeStyles \<and> toLowerCase (tagName childElem) = ''style'' then []
           else serializeElementWithShadow childElem excludeStyles serializeShadowRoot)
      | TextNode text \<Rightarrow> text
      | CommentNode text \<Rightarrow> (if text \<noteq> [] then commentMarkup text else [])
      | OtherNode \<Rightarrow> [])
     @ shadowChildrenLoop rest excludeStyles serializeShadowRoot"
| "childrenLoop [] excludeStyles serializeShadowRoot = []"
| "childrenLoop (child # rest) excludeStyles serializeShadowRoot =
     (case child of
        ElementNode childElem \<Rightarrow>
          serializeElementWithShadow childElem excludeStyles serializeShadowRoot
      | TextNode text \<Rightarrow> text
      | CommentNode text \<Rightarrow> (if text \<noteq> [] then commentMarkup text else [])
      | OtherNode \<Rightarrow> [])
     @ childrenLoop rest excludeStyles serializeShadowRoot"
  by pat_completeness auto

lemma size_shadowChildNodes:
  "shadowRoot elem = Some sr \<Longrightarrow> size_list size (shadowChildNodes sr) < size elem"
  by (cases elem; cases sr) simp

lemma size_slotChildNodes:
  "slotChildNodes elem = Some cs \<Longrightarrow> size_list size cs < size elem"
  by (cases elem) simp

lemma size_childNodes: "size_list size (childNodes elem) < size elem"
  by (cases elem) simp

termination serializeElementWithShadow
proof (relation "measure (\<lambda>x. case x of
                             Inl (e, _) \<Rightarrow> size e
                           | Inr (Inl (cs, _)) \<Rightarrow> size_list size cs
                           | Inr (Inr (cs, _)) \<Rightarrow> size_list size cs)", goal_cases)
  case 1
  show ?case by simp
next
  case (2 elem excludeStyles serializeShadowRoot)
  then show ?case by (auto simp: size_shadowChildNodes)
next
  case (3 elem excludeStyles serializeShadowRoot)
  then show ?case by (auto simp: size_slotChildNodes)
next
  case (4 elem excludeStyles serializeShadowRoot)
  then show ?case by (simp add: size_childNodes)
qed simp_all

text \<open>
  The sections of the element branch, named for the theorems: what the shadow block adds
  and what the light-children block adds.
\<close>

definition shadowPart :: "element \<Rightarrow> bool \<Rightarrow> bool \<Rightarrow> string" where
  "shadowPart elem excludeStyles serializeShadowRoot =
     (if serializeShadowRoot \<and> shadowRoot elem \<noteq> None
      then shadowRootTag (the (shadowRoot elem))
             @ shadowChildrenLoop (shadowChildNodes (the (shadowRoot elem)))
                 excludeStyles serializeShadowRoot
             @ ''</mock:shadow-root>''
      else [])"

definition lightPart :: "element \<Rightarrow> bool \<Rightarrow> bool \<Rightarrow> string" where
  "lightPart elem excludeStyles serializeShadowRoot =
     (if serializeShadowRoot \<and> slotChildNodes elem \<noteq> None
      then childrenLoop (the (slotChildNodes elem)) excludeStyles serializeShadowRoot
      else childrenLoop (childNodes elem) excludeStyles serializeShadowRoot)"

lemma serializeElementWithShadow_parts:
  "serializeElementWithShadow elem ex sh =
     openingTag elem @ shadowPart elem ex sh @ lightPart elem ex sh
       @ (if elementTag elem \<notin> set VOID_ELEMENTS then ''</'' @ elementTag elem @ ''>'' else [])"
  by (simp add: shadowPart_def lightPart_def Let_def)


text \<open>
  The fragment branch of \<^verbatim>\<open>serializeElementWithShadow\<close> (node type 11, a
  \<^verbatim>\<open>DocumentFragment\<close> or a \<^verbatim>\<open>ShadowRoot\<close> given as the input): its loop has the body
  of the light-children loop.
\<close>

definition serializeFragment :: "node list \<Rightarrow> bool \<Rightarrow> bool \<Rightarrow> string" where
  "serializeFragment children ex sh = childrenLoop children ex sh"

record SerializeOptions =
  serializeShadowRoot :: "bool option"
  pretty :: "bool option"
  excludeStyles :: "bool option"

datatype input =
  InputString string
| InputElement element
| InputFragment "node list"

text \<open>
  \<^verbatim>\<open>serializeHtml\<close>. An option left out takes its default \<^verbatim>\<open>true\<close>. The pretty-printer
  is the argument \<open>prettify\<close>, a function that returns a string or throws; the function
  \<^verbatim>\<open>prettifyHtml\<close> of the source is modelled further down and is one such argument. What
  holds for every argument holds for it.
\<close>

definition serializeHtml ::
  "(string \<Rightarrow> error + string) \<Rightarrow> input \<Rightarrow> SerializeOptions \<Rightarrow> error + string" where
  "serializeHtml prettify inp options =
     (let sh = (case serializeShadowRoot options of None \<Rightarrow> True | Some b \<Rightarrow> b);
          pr = (case pretty options of None \<Rightarrow> True | Some b \<Rightarrow> b);
          ex = (case excludeStyles options of None \<Rightarrow> True | Some b \<Rightarrow> b)
      in case inp of
           InputString str \<Rightarrow> Inr str
         | InputElement elem \<Rightarrow>
             (let html = serializeElementWithShadow elem ex sh
              in if pr then prettify html else Inr html)
         | InputFragment children \<Rightarrow>
             (let html = serializeFragment children ex sh
              in if pr then prettify html else Inr html))"

subsection \<open>Void elements\<close>

text \<open>
  Claim C5. The serializer ends the markup of an element whose tag name (the
  \<^verbatim>\<open>localName\<close>, or else the lowercased \<^verbatim>\<open>tagName\<close>) is in the void set with the
  serialization of its children, whatever children the node reports: nothing is added
  after them. For every other tag name the closing tag of that name is added last.
\<close>

theorem void_elements_get_no_closing_tag:
  "(elementTag elem \<in> set VOID_ELEMENTS \<longrightarrow>
      serializeElementWithShadow elem ex sh =
        openingTag elem @ shadowPart elem ex sh @ lightPart elem ex sh)
   \<and> (elementTag elem \<notin> set VOID_ELEMENTS \<longrightarrow>
      serializeElementWithShadow elem ex sh =
        openingTag elem @ shadowPart elem ex sh @ lightPart elem ex sh
          @ ''</'' @ elementTag elem @ ''>'')"
  by (simp add: serializeElementWithShadow_parts del: serializeElementWithShadow.simps)


text \<open>
  A \<^verbatim>\<open>br\<close> element that reports a text child gets no closing tag; a \<^verbatim>\<open>p\<close> element
  with the same child does.
\<close>

theorem void_elements_get_no_closing_tag_witness:
  "serializeElementWithShadow (Element None ''BR'' None None None [TextNode ''x'']) True True
     = ''<br>x''
   \<and> serializeElementWithShadow (Element (Some ''p'') ''P'' None None None [TextNode ''x''])
       True True
     = ''<p>x</p>''"
  using
    void_elements_get_no_closing_tag
      [of "Element None ''BR'' None None None [TextNode ''x'']" True True]
    void_elements_get_no_closing_tag
      [of "Element (Some ''p'') ''P'' None None None [TextNode ''x'']" True True]
  by (simp add: elementTag_def truthy_def toLowerCase_def toLowerCase_char_def upperCaseLetters_def lowerCaseLetters_def
      VOID_ELEMENTS_def openingTag_def serializeAttributes_def shadowPart_def lightPart_def
      del: serializeElementWithShadow.simps)


subsection \<open>Slot-polyfill override\<close>

text \<open>
  Claim C1, as amended. For an element that has both a public child list and the override
  list \<^verbatim>\<open>__childNodes\<close>: when shadow serialization is on (\<^verbatim>\<open>serializeShadowRoot\<close> true or
  left out), the output of \<^verbatim>\<open>serializeHtml\<close> is the same whatever the public list holds,
  and the light children are serialized from the override list; when it is off, the
  override list is ignored and the public list is serialized.
\<close>

theorem slot_override_precedence:
  "(serializeShadowRoot options \<noteq> Some False \<longrightarrow>
      serializeHtml prettify (InputElement (Element lnm tn as sr (Some override) cs)) options
        = serializeHtml prettify (InputElement (Element lnm tn as sr (Some override) cs'))
            options
      \<and> lightPart (Element lnm tn as sr (Some override) cs) ex True
          = childrenLoop override ex True)
   \<and> (serializeShadowRoot options = Some False \<longrightarrow>
      serializeHtml prettify (InputElement (Element lnm tn as sr (Some override) cs)) options
        = serializeHtml prettify (InputElement (Element lnm tn as sr None cs)) options
      \<and> lightPart (Element lnm tn as sr (Some override) cs) ex False
          = childrenLoop cs ex False)"
  by (auto simp: serializeHtml_def serializeElementWithShadow_parts openingTag_def elementTag_def
      shadowPart_def lightPart_def Let_def split: option.splits
      simp del: serializeElementWithShadow.simps)

theorem slot_override_precedence_witness:
  "serializeHtml (\<lambda>s. Inr s)
     (InputElement
        (Element None ''DIV'' None None (Some [TextNode ''real'']) [TextNode ''public'']))
     \<lparr>serializeShadowRoot = None, pretty = Some False, excludeStyles = None\<rparr>
   = Inr ''<div>real</div>''
   \<and> serializeHtml (\<lambda>s. Inr s)
       (InputElement
          (Element None ''DIV'' None None (Some [TextNode ''real'']) [TextNode ''public'']))
       \<lparr>serializeShadowRoot = Some False, pretty = Some False, excludeStyles = None\<rparr>
     = serializeHtml (\<lambda>s. Inr s)
         (InputElement (Element None ''DIV'' None None None [TextNode ''public'']))
         \<lparr>serializeShadowRoot = Some False, pretty = Some False, excludeStyles = None\<rparr>"
  using
    slot_override_precedence
      [where options = "\<lparr>serializeShadowRoot = None, pretty = Some False, excludeStyles = None\<rparr>"
         and prettify = "\<lambda>s. Inr s" and lnm = None and tn = "''DIV''" and as = None
         and sr = None and override = "[TextNode ''real'']" and cs = "[TextNode ''public'']"
         and cs' = "[TextNode ''real'']" and ex = True]
    slot_override_precedence
      [where options = "\<lparr>serializeShadowRoot = Some False, pretty = Some False,
                          excludeStyles = None\<rparr>"
         and prettify = "\<lambda>s. Inr s" and lnm = None and tn = "''DIV''" and as = None
         and sr = None and override = "[TextNode ''real'']" and cs = "[TextNode ''public'']"
         and cs' = "[TextNode ''real'']" and ex = True]
  by (simp add: serializeHtml_def serializeElementWithShadow_parts elementTag_def truthy_def
      toLowerCase_def toLowerCase_char_def upperCaseLetters_def lowerCaseLetters_def VOID_ELEMENTS_def openingTag_def
      serializeAttributes_def shadowPart_def lightPart_def
      del: serializeElementWithShadow.simps)

text \<open>
  Claim C1 as stated fails with \<^verbatim>\<open>serializeShadowRoot: false\<close>: the element below has the
  override list \<^verbatim>\<open>real\<close> and the public list \<^verbatim>\<open>public\<close>, and its serialization shows the
  public list.
\<close>

theorem slot_override_counterexample:
  "serializeHtml (\<lambda>s. Inr s)
     (InputElement
        (Element None ''DIV'' None None (Some [TextNode ''real'']) [TextNode ''public'']))
     \<lparr>serializeShadowRoot = Some False, pretty = Some False, excludeStyles = None\<rparr>
   = Inr ''<div>public</div>''"
  by (simp add: serializeHtml_def elementTag_def truthy_def toLowerCase_def
      toLowerCase_char_def upperCaseLetters_def lowerCaseLetters_def VOID_ELEMENTS_def openingTag_def serializeAttributes_def)

section \<open>The normalizer\<close>

text \<open>
  The class \<^verbatim>\<open>\s\<close> of a JavaScript regular expression, which is also what
  \<^verbatim>\<open>trim\<close> removes, on the characters a \<^typ>\<open>char\<close> can hold (code units below 256):
  tab, line feed, vertical tab, form feed, carriage return, space and the no-break
  space.
\<close>

definition isWhitespace :: "char \<Rightarrow> bool" where
  "isWhitespace c =
     (c \<in> set [CHR 0x09, CHR 0x0A, CHR 0x0B, CHR 0x0C, CHR 0x0D, CHR '' '', CHR 0xA0])"

text \<open>
  \<^verbatim>\<open>html.replace(/\s+/g, ' ')\<close>: every maximal run of whitespace becomes one space.
\<close>

lemma length_dropWhile_less [termination_simp]:
  "length (dropWhile P xs) < Suc (length xs)"
  by (simp add: le_imp_less_Suc length_dropWhile_le)

lemma length_tl_dropWhile_less [termination_simp]:
  "length (dropWhile P xs) - Suc 0 < Suc (length xs)"
  using length_dropWhile_less [of P xs] by simp

fun replaceWhitespaceRuns :: "string \<Rightarrow> string" where
  "replaceWhitespaceRuns [] = []"
| "replaceWhitespaceRuns (c # cs) =
     (if isWhitespace c then CHR '' '' # replaceWhitespaceRuns (dropWhile isWhitespace cs)
      else c # replaceWhitespaceRuns cs)"

text \<open>
  \<^verbatim>\<open>.replace(/>\s+</g, '><')\<close>: scanning from the left, a \<^verbatim>\<open>>\<close> that is followed by
  one or more whitespace characters and then a \<^verbatim>\<open><\<close> is rewritten, and the scan goes
  on behind that \<^verbatim>\<open><\<close>. \<^term>\<open>gapAt cs\<close> says that \<open>cs\<close> starts with such a gap.
\<close>

definition gapAt :: "string \<Rightarrow> bool" where
  "gapAt cs =
     (takeWhile isWhitespace cs \<noteq> []
      \<and> (case dropWhile isWhitespace cs of [] \<Rightarrow> False | x # _ \<Rightarrow> x = CHR ''<''))"

fun removeTagGaps :: "string \<Rightarrow> string" where
  "removeTagGaps [] = []"
| "removeTagGaps (c # cs) =
     (if c = CHR ''>'' \<and> gapAt cs
      then ''><'' @ removeTagGaps (tl (dropWhile isWhitespace cs))
      else c # removeTagGaps cs)"

definition trim :: "string \<Rightarrow> string" where
  "trim s = rev (dropWhile isWhitespace (rev (dropWhile isWhitespace s)))"

definition normalizeHtml :: "string \<Rightarrow> string" where
  "normalizeHtml html = trim (removeTagGaps (replaceWhitespaceRuns html))"


text \<open>
  The strings that the first replacement leaves as they are, and those that the second
  replacement leaves as they are.
\<close>

fun singleSpaced :: "string \<Rightarrow> bool" where
  "singleSpaced [] = True"
| "singleSpaced [c] = (\<not> isWhitespace c \<or> c = CHR '' '')"
| "singleSpaced (c # d # r) =
     ((\<not> isWhitespace c \<or> (c = CHR '' '' \<and> \<not> isWhitespace d)) \<and> singleSpaced (d # r))"

fun gapless :: "string \<Rightarrow> bool" where
  "gapless [] = True"
| "gapless (c # cs) = (\<not> (c = CHR ''>'' \<and> gapAt cs) \<and> gapless cs)"

lemma replaceWhitespaceRuns_head:
  "\<not> isWhitespace c \<Longrightarrow> \<exists>r. replaceWhitespaceRuns (c # cs) = c # r"
  by simp

lemma dropWhile_head: "dropWhile P xs = [] \<or> (\<exists>x r. dropWhile P xs = x # r \<and> \<not> P x)"
  by (metis hd_dropWhile list.exhaust_sel)

lemma singleSpaced_Cons:
  "singleSpaced (c # s) =
     ((\<not> isWhitespace c \<or> (c = CHR '' '' \<and> (s = [] \<or> \<not> isWhitespace (hd s))))
      \<and> singleSpaced s)"
  by (cases s) auto

lemma singleSpaced_replaceWhitespaceRuns: "singleSpaced (replaceWhitespaceRuns s)"
proof (induction s rule: replaceWhitespaceRuns.induct)
  case 1
  show ?case by simp
next
  case (2 c cs)
  show ?case
  proof (cases "isWhitespace c")
    case True
    have "replaceWhitespaceRuns (dropWhile isWhitespace cs) = []
          \<or> \<not> isWhitespace (hd (replaceWhitespaceRuns (dropWhile isWhitespace cs)))"
    proof (cases "dropWhile isWhitespace cs")
      case Nil
      show ?thesis unfolding Nil by simp
    next
      case (Cons x r)
      with dropWhile_head [of isWhitespace cs] have "\<not> isWhitespace x" by auto
      then show ?thesis unfolding Cons by simp
    qed
    with True 2 show ?thesis by (simp add: singleSpaced_Cons)
  next
    case False
    with 2 show ?thesis by (simp add: singleSpaced_Cons)
  qed
qed

lemma replaceWhitespaceRuns_fixed: "singleSpaced s \<Longrightarrow> replaceWhitespaceRuns s = s"
proof (induction s rule: singleSpaced.induct)
  case (3 c d r)
  then show ?case by (cases "isWhitespace c") auto
qed auto

lemma isWhitespace_lt [simp]: "\<not> isWhitespace CHR ''<''"
  by (simp add: isWhitespace_def)

lemma isWhitespace_gt [simp]: "\<not> isWhitespace CHR ''>''"
  by (simp add: isWhitespace_def)

lemma removeTagGaps_head: "removeTagGaps (c # cs) = c # tl (removeTagGaps (c # cs))"
  by simp

lemma removeTagGaps_hd: "s \<noteq> [] \<Longrightarrow> removeTagGaps s \<noteq> [] \<and> hd (removeTagGaps s) = hd s"
  by (cases s) auto

lemma removeTagGaps_Nil_iff: "removeTagGaps s = [] \<longleftrightarrow> s = []"
  by (cases s) auto

lemma singleSpaced_removeTagGaps: "singleSpaced s \<Longrightarrow> singleSpaced (removeTagGaps s)"
proof (induction s rule: removeTagGaps.induct)
  case 1
  show ?case by simp
next
  case (2 c cs)
  show ?case
  proof (cases "c = CHR ''>'' \<and> gapAt cs")
    case True
    let ?rest = "tl (dropWhile isWhitespace cs)"
    have "suffix ?rest (c # cs)"
      by (metis suffix_ConsI suffix_dropWhile suffix_order.trans suffix_tl)
    moreover have "singleSpaced b" if "singleSpaced a" "suffix b a" for a b
      using that by (induction a) (auto simp: suffix_Cons singleSpaced_Cons)
    ultimately have "singleSpaced ?rest" using 2(3) by blast
    with 2(1) True have "singleSpaced (removeTagGaps ?rest)" by simp
    with True show ?thesis by (simp add: singleSpaced_Cons)
  next
    case False
    from 2(3) have cs: "singleSpaced cs" by (simp add: singleSpaced_Cons)
    with 2(2) False have ih: "singleSpaced (removeTagGaps cs)" by simp
    from False have eq: "removeTagGaps (c # cs) = c # removeTagGaps cs" by auto
    from 2(3) have "\<not> isWhitespace c \<or> (c = CHR '' '' \<and> (cs = [] \<or> \<not> isWhitespace (hd cs)))"
      by (simp add: singleSpaced_Cons)
    moreover have "removeTagGaps cs = [] \<longleftrightarrow> cs = []" by (rule removeTagGaps_Nil_iff)
    moreover have "cs \<noteq> [] \<Longrightarrow> hd (removeTagGaps cs) = hd cs"
      using removeTagGaps_hd by blast
    ultimately show ?thesis
      unfolding eq using ih by (auto simp: singleSpaced_Cons)
  qed
qed

lemma singleSpaced_suffix: "singleSpaced a \<Longrightarrow> suffix b a \<Longrightarrow> singleSpaced b"
  by (induction a) (auto simp: suffix_Cons singleSpaced_Cons)

lemma singleSpaced_prefix: "singleSpaced (a @ b) \<Longrightarrow> singleSpaced a"
  by (induction a) (auto simp: singleSpaced_Cons hd_append split: if_splits)

lemma trim_decomp: "\<exists>pre post. s = pre @ trim s @ post"
proof -
  let ?d = "dropWhile isWhitespace s"
  have "s = takeWhile isWhitespace s @ ?d" by simp
  moreover have "rev ?d = takeWhile isWhitespace (rev ?d) @ dropWhile isWhitespace (rev ?d)"
    by simp
  then have "?d = trim s @ rev (takeWhile isWhitespace (rev ?d))"
    unfolding trim_def by (metis rev_append rev_rev_ident)
  ultimately show ?thesis by metis
qed

lemma singleSpaced_trim: "singleSpaced s \<Longrightarrow> singleSpaced (trim s)"
proof -
  assume s: "singleSpaced s"
  obtain pre post where "s = pre @ trim s @ post" using trim_decomp by blast
  with s have "singleSpaced (pre @ trim s @ post)" by simp
  then have "singleSpaced (trim s @ post)"
    by (rule singleSpaced_suffix) (simp add: suffix_def)
  then show ?thesis by (rule singleSpaced_prefix)
qed

lemma gapAt_iff:
  "gapAt cs = (\<exists>w r. cs = w @ CHR ''<'' # r \<and> w \<noteq> [] \<and> (\<forall>x\<in>set w. isWhitespace x))"
proof
  assume g: "gapAt cs"
  then obtain r where "dropWhile isWhitespace cs = CHR ''<'' # r"
    by (auto simp: gapAt_def split: list.splits)
  then have "cs = takeWhile isWhitespace cs @ CHR ''<'' # r"
    by (metis takeWhile_dropWhile_id)
  with g show "\<exists>w r. cs = w @ CHR ''<'' # r \<and> w \<noteq> [] \<and> (\<forall>x\<in>set w. isWhitespace x)"
    by (metis gapAt_def set_takeWhileD)
next
  assume "\<exists>w r. cs = w @ CHR ''<'' # r \<and> w \<noteq> [] \<and> (\<forall>x\<in>set w. isWhitespace x)"
  then obtain w r where cs: "cs = w @ CHR ''<'' # r" and w: "w \<noteq> []" "\<forall>x\<in>set w. isWhitespace x"
    by blast
  then have "takeWhile isWhitespace cs = w" "dropWhile isWhitespace cs = CHR ''<'' # r"
    by (simp_all add: takeWhile_append2 dropWhile_append2)
  with w show "gapAt cs" by (simp add: gapAt_def)
qed

lemma removeTagGaps_whitespace_prefix:
  "\<forall>x\<in>set w. isWhitespace x \<Longrightarrow> removeTagGaps (w @ r) = w @ removeTagGaps r"
  by (induction w) auto

lemma gapAt_removeTagGaps: "gapAt (removeTagGaps cs) = gapAt cs"
proof -
  let ?w = "takeWhile isWhitespace cs" and ?r = "dropWhile isWhitespace cs"
  have w: "\<forall>x\<in>set ?w. isWhitespace x" by (auto dest: set_takeWhileD)
  have eq: "removeTagGaps cs = ?w @ removeTagGaps ?r"
    using removeTagGaps_whitespace_prefix [OF w, of ?r] by simp
  have r: "?r = [] \<or> \<not> isWhitespace (hd ?r)"
    using dropWhile_head [of isWhitespace cs] by auto
  show ?thesis
  proof (cases "?r = []")
    case True
    with eq have "removeTagGaps cs = ?w" by simp
    moreover from True have "cs = ?w" by (metis append_Nil2 takeWhile_dropWhile_id)
    ultimately show ?thesis by simp
  next
    case False
    with r removeTagGaps_hd [of ?r]
    have h: "removeTagGaps ?r \<noteq> []" "hd (removeTagGaps ?r) = hd ?r" "\<not> isWhitespace (hd ?r)"
      by auto
    then obtain y ys where y: "removeTagGaps ?r = y # ys" "y = hd ?r"
      by (cases "removeTagGaps ?r") auto
    with h w have "takeWhile isWhitespace (removeTagGaps cs) = ?w"
      "dropWhile isWhitespace (removeTagGaps cs) = y # ys"
      unfolding eq by (simp_all add: takeWhile_append2 dropWhile_append2)
    with y False show ?thesis
      by (cases ?r) (auto simp: gapAt_def)
  qed
qed

lemma gapless_removeTagGaps: "gapless (removeTagGaps s)"
proof (induction s rule: removeTagGaps.induct)
  case 1
  show ?case by simp
next
  case (2 c cs)
  show ?case
  proof (cases "c = CHR ''>'' \<and> gapAt cs")
    case True
    with 2 show ?thesis by (simp add: gapAt_def)
  next
    case False
    then have eq: "removeTagGaps (c # cs) = c # removeTagGaps cs" by auto
    from False 2(2) have "gapless (removeTagGaps cs)" by blast
    with False show ?thesis
      unfolding eq by (auto simp: gapAt_removeTagGaps)
  qed
qed

lemma removeTagGaps_fixed: "gapless s \<Longrightarrow> removeTagGaps s = s"
  by (induction s) auto

lemma gapless_suffix: "gapless a \<Longrightarrow> suffix b a \<Longrightarrow> gapless b"
  by (induction a) (auto simp: suffix_Cons)

lemma gapAt_append: "gapAt a \<Longrightarrow> gapAt (a @ b)"
  unfolding gapAt_iff by (metis append.assoc append_Cons)

lemma gapless_prefix: "gapless (a @ b) \<Longrightarrow> gapless a"
  by (induction a) (auto dest: gapAt_append)

lemma gapless_trim: "gapless s \<Longrightarrow> gapless (trim s)"
proof -
  assume s: "gapless s"
  obtain pre post where "s = pre @ trim s @ post" using trim_decomp by blast
  with s have "gapless (pre @ trim s @ post)" by simp
  then have "gapless (trim s @ post)"
    by (rule gapless_suffix) (simp add: suffix_def)
  then show ?thesis by (rule gapless_prefix)
qed

lemma trim_idem: "trim (trim s) = trim s"
proof -
  let ?d = "dropWhile isWhitespace s"
  let ?e = "dropWhile isWhitespace (rev ?d)"
  have e: "dropWhile isWhitespace ?e = ?e" by (simp add: dropWhile_idem)
  have "dropWhile isWhitespace (rev ?e) = rev ?e"
  proof (cases "rev ?e")
    case Nil
    show ?thesis by (simp only: Nil dropWhile.simps)
  next
    case (Cons x xs)
    have "suffix ?e (rev ?d)" by (rule suffix_dropWhile)
    then have "prefix (rev ?e) ?d" by (metis rev_rev_ident suffix_to_prefix)
    with Cons obtain ys where d: "?d = x # ys" by (auto simp: prefix_def)
    with dropWhile_head [of isWhitespace s] have "\<not> isWhitespace x" by auto
    with Cons show ?thesis by simp
  qed
  with e show ?thesis by (simp add: trim_def)
qed

text \<open>
  Claim C6. \<^verbatim>\<open>normalizeHtml\<close> is idempotent: normalizing a normalized string gives the
  same string.
\<close>

theorem normalizeHtml_idempotent: "normalizeHtml (normalizeHtml s) = normalizeHtml s"
proof -
  let ?a = "replaceWhitespaceRuns s"
  let ?n = "trim (removeTagGaps ?a)"
  have "singleSpaced ?n"
    by (intro singleSpaced_trim singleSpaced_removeTagGaps singleSpaced_replaceWhitespaceRuns)
  then have 1: "replaceWhitespaceRuns ?n = ?n" by (rule replaceWhitespaceRuns_fixed)
  have "gapless ?n" by (intro gapless_trim gapless_removeTagGaps)
  then have 2: "removeTagGaps ?n = ?n" by (rule removeTagGaps_fixed)
  show ?thesis by (simp add: normalizeHtml_def 1 2 trim_idem)
qed

theorem normalizeHtml_idempotent_witness:
  "normalizeHtml (normalizeHtml ''  <a>  <b> x  y </b>  </a> '') = ''<a><b> x y </b></a>''"
  using normalizeHtml_idempotent [of "''  <a>  <b> x  y </b>  </a> ''"]
  by (simp add: normalizeHtml_def trim_def gapAt_def isWhitespace_def)


section \<open>The pretty-printer\<close>

text \<open>\<^verbatim>\<open>Array.prototype.join\<close>\<close>

fun join :: "string \<Rightarrow> string list \<Rightarrow> string" where
  "join sep [] = []"
| "join sep [x] = x"
| "join sep (x # y # r) = x @ sep @ join sep (y # r)"

text \<open>
  \<^verbatim>\<open>prettifyHtml\<close>: the markup is normalized, split into tags and the text between
  them, and laid out one part to a line, indented by the depth of the open tags; a closing
  tag is put on the line of its opening tag when that is the last line.
\<close>

text \<open>
  The replacement \<^verbatim>\<open>.replace(/>\s*</g, '><')\<close>: scanning from the left, a \<^verbatim>\<open>>\<close> that is
  followed by any number of whitespace characters and then a \<^verbatim>\<open><\<close> is rewritten, and the
  scan goes on behind that \<^verbatim>\<open><\<close>.
\<close>

definition tagFollows :: "string \<Rightarrow> bool" where
  "tagFollows cs = (case dropWhile isWhitespace cs of [] \<Rightarrow> False | x # _ \<Rightarrow> x = CHR ''<'')"

fun closeTagGaps :: "string \<Rightarrow> string" where
  "closeTagGaps [] = []"
| "closeTagGaps (c # cs) =
     (if c = CHR ''>'' \<and> tagFollows cs
      then ''><'' @ closeTagGaps (tl (dropWhile isWhitespace cs))
      else c # closeTagGaps cs)"

text \<open>
  \<^verbatim>\<open>html.split(/(<[^>]+>)/)\<close>. A match of the expression starts at a \<^verbatim>\<open><\<close> and runs to
  the first \<^verbatim>\<open>>\<close> behind it, with at least one character in between; \<open>tagAt s\<close> is the
  match at the start of \<open>s\<close> with the rest of \<open>s\<close>. The result of \<^verbatim>\<open>split\<close> holds, in
  turns, the text before a match (which may be empty) and the match, and at its end the
  text behind the last match.
\<close>

definition tagAt :: "string \<Rightarrow> (string \<times> string) option" where
  "tagAt s =
     (case s of
        [] \<Rightarrow> None
      | c # cs \<Rightarrow>
          (let body = takeWhile (\<lambda>x. x \<noteq> CHR ''>'') cs;
               rest = dropWhile (\<lambda>x. x \<noteq> CHR ''>'') cs
           in if c = CHR ''<'' \<and> body \<noteq> [] \<and> rest \<noteq> []
              then Some (c # body @ ''>'', tl rest)
              else None))"

lemma tagAt_shorter [termination_simp]:
  "tagAt (c # cs) = Some (tag, rest) \<Longrightarrow> length rest < Suc (length cs)"
  using length_tl_dropWhile_less [of "\<lambda>x. x \<noteq> CHR ''>''" cs]
  by (auto simp: tagAt_def Let_def split: if_splits)

fun splitOnTags :: "string \<Rightarrow> string \<Rightarrow> string list" where
  "splitOnTags text [] = [text]"
| "splitOnTags text (c # cs) =
     (case tagAt (c # cs) of
        Some (tag, rest) \<Rightarrow> text # tag # splitOnTags [] rest
      | None \<Rightarrow> splitOnTags (text @ [c]) cs)"

text \<open>
  \<^verbatim>\<open>part.match(/<\/([^>\s]+)/)?.[1]\<close>: at the first place where \<^verbatim>\<open></\<close> is followed by a
  character that is neither \<^verbatim>\<open>>\<close> nor whitespace, the run of such characters.
\<close>

fun closingTagName :: "string \<Rightarrow> string option" where
  "closingTagName [] = None"
| "closingTagName (c # cs) =
     (let name = takeWhile (\<lambda>x. x \<noteq> CHR ''>'' \<and> \<not> isWhitespace x) (drop 1 cs)
      in if c = CHR ''<'' \<and> take 1 cs = ''/'' \<and> name \<noteq> [] then Some name
         else closingTagName cs)"

text \<open>
  The source of the expression that \<^verbatim>\<open>prettifyHtml\<close> builds for the name of a closing
  tag: \<^verbatim>\<open>^\s*<\<close>, the name with a backslash before each colon, and \<^verbatim>\<open>[^>]*>$\<close>.
\<close>

definition escapeColons :: "string \<Rightarrow> string" where
  "escapeColons name =
     concat (map (\<lambda>c. if c = CHR '':'' then [CHR 0x5C, CHR '':''] else [c]) name)"

definition openTagPattern :: "string \<Rightarrow> string" where
  "openTagPattern name =
     [CHR ''^'', CHR 0x5C] @ ''s*<'' @ escapeColons name @ ''[^>]*>$''"

text \<open>
  The body of the loop of \<^verbatim>\<open>prettifyHtml\<close> on the indentation level and the lines so
  far. The regular-expression engine is the argument \<open>regExpTest\<close>: applied to the source
  of an expression and a string it stands for \<^verbatim>\<open>new RegExp(source).test(string)\<close>, which
  throws when the source is no expression (a tag name may hold any character).
  \<^verbatim>\<open>Math.max(0, indentLevel - 1)\<close> is the subtraction of natural numbers, and \<open>name\<close>
  is the variable \<^verbatim>\<open>tagName\<close> of the loop.
\<close>

definition indentSize :: nat where
  "indentSize = 2"

definition pushLine :: "nat \<Rightarrow> string \<Rightarrow> string list \<Rightarrow> string list" where
  "pushLine indentLevel part lines =
     lines @ [replicate (indentLevel * indentSize) CHR '' '' @ part]"

definition prettifyPart ::
  "(string \<Rightarrow> string \<Rightarrow> error + bool) \<Rightarrow> nat \<times> string list \<Rightarrow> string
     \<Rightarrow> error + nat \<times> string list" where
  "prettifyPart regExpTest state rawPart =
     (case state of (indentLevel, lines) \<Rightarrow>
        (let part = trim rawPart
         in if part = [] then Inr (indentLevel, lines)
            else if prefix ''<'' part
            then (if prefix ''</'' part
                  then (let indentLevel = indentLevel - 1;
                            name = closingTagName part;
                            lastLine = (if lines = [] then None else Some (last lines))
                        in if truthy lastLine \<and> truthy name
                           then (case regExpTest (openTagPattern (the name)) (the lastLine) of
                                   Inl e \<Rightarrow> Inl e
                                 | Inr matched \<Rightarrow>
                                     if matched
                                     then Inr (indentLevel,
                                               lines[length lines - 1 := the lastLine @ part])
                                     else Inr (indentLevel, pushLine indentLevel part lines))
                           else Inr (indentLevel, pushLine indentLevel part lines))
                  else if suffix ''/>'' part
                  then Inr (indentLevel, pushLine indentLevel part lines)
                  else Inr (indentLevel + 1, pushLine indentLevel part lines))
            else Inr (indentLevel, pushLine indentLevel part lines)))"

fun prettifyParts ::
  "(string \<Rightarrow> string \<Rightarrow> error + bool) \<Rightarrow> nat \<times> string list \<Rightarrow> string list
     \<Rightarrow> error + nat \<times> string list" where
  "prettifyParts regExpTest state [] = Inr state"
| "prettifyParts regExpTest state (part # parts) =
     (case prettifyPart regExpTest state part of
        Inl e \<Rightarrow> Inl e
      | Inr state' \<Rightarrow> prettifyParts regExpTest state' parts)"

definition prettifyHtml :: "(string \<Rightarrow> string \<Rightarrow> error + bool) \<Rightarrow> string \<Rightarrow> error + string" where
  "prettifyHtml regExpTest html =
     (let html = trim (closeTagGaps (replaceWhitespaceRuns html));
          parts = splitOnTags [] html
      in case prettifyParts regExpTest (0, []) parts of
           Inl e \<Rightarrow> Inl e
         | Inr (indentLevel, lines) \<Rightarrow> Inr (join [CHR 0x0A] lines))"


text \<open>
  The pretty-printer returns a string whenever the engine throws on no expression.
\<close>

lemma prettifyPart_returns:
  assumes "\<forall>pat str. \<exists>b. re pat str = Inr b"
  shows "\<exists>state'. prettifyPart re state raw = Inr state'"
proof -
  obtain n lines where s: "state = (n, lines)" by (cases state)
  obtain b where "re (openTagPattern (the (closingTagName (trim raw)))) (last lines) = Inr b"
    using assms by blast
  then show ?thesis
    unfolding s by (auto simp: prettifyPart_def Let_def truthy_def)
qed

lemma prettifyParts_returns:
  assumes "\<forall>pat str. \<exists>b. re pat str = Inr b"
  shows "\<exists>state'. prettifyParts re state parts = Inr state'"
proof (induction parts arbitrary: state)
  case Nil
  show ?case by simp
next
  case (Cons part parts)
  obtain mid where "prettifyPart re state part = Inr mid"
    using prettifyPart_returns [OF assms] by blast
  with Cons show ?case by simp
qed

lemma prettifyHtml_returns:
  assumes "\<forall>pat str. \<exists>b. re pat str = Inr b"
  shows "\<exists>out. prettifyHtml re html = Inr out"
proof -
  obtain state' where
    "prettifyParts re (0, []) (splitOnTags [] (trim (closeTagGaps (replaceWhitespaceRuns html))))
       = Inr state'"
    using prettifyParts_returns [OF assms] by blast
  then show ?thesis
    by (cases state') (simp add: prettifyHtml_def)
qed


section \<open>The shadow-root sentinel\<close>

text \<open>
  The sentinel tags are \<^verbatim>\<open><mock:shadow-root>\<close>, with or without the focus attribute, and
  \<^verbatim>\<open></mock:shadow-root>\<close>. A string contains one when it has the opening of the first or
  the whole of the second as a substring (\<^verbatim>\<open>String.prototype.includes\<close>).
\<close>

definition containsSentinel :: "string \<Rightarrow> bool" where
  "containsSentinel s = (sublist ''<mock:shadow-root'' s \<or> sublist ''</mock:shadow-root>'' s)"

text \<open>
  The pretty-printer adds no sentinel to markup that has none. This is shown for every
  string \<open>p\<close> that has the properties of the two sentinels the proof needs: it starts
  with \<^verbatim>\<open><\<close> and has no other \<^verbatim>\<open><\<close>, has \<^verbatim>\<open>>\<close> at most as its last character, and
  has no whitespace. Each pass of \<^verbatim>\<open>prettifyHtml\<close> keeps a string free of \<open>p\<close>.
\<close>

definition markerLike :: "string \<Rightarrow> bool" where
  "markerLike p =
     (p \<noteq> [] \<and> hd p = CHR ''<'' \<and> CHR ''<'' \<notin> set (tl p) \<and> CHR ''>'' \<notin> set (butlast p)
      \<and> list_all (\<lambda>c. \<not> isWhitespace c) p)"

lemma sublist_trans: "sublist a b \<Longrightarrow> sublist b c \<Longrightarrow> sublist a c"
proof -
  assume "sublist a b" "sublist b c"
  then obtain p1 s1 p2 s2 where "b = p1 @ a @ s1" "c = p2 @ b @ s2"
    by (auto simp: sublist_def)
  then have "c = (p2 @ p1) @ a @ (s1 @ s2)" by simp
  then show ?thesis unfolding sublist_def by blast
qed

lemma sublist_suffix: "sublist a b \<Longrightarrow> suffix b c \<Longrightarrow> sublist a c"
  by (meson sublist_trans suffix_imp_sublist)

lemma prefix_replaceWhitespaceRuns:
  "list_all (\<lambda>c. \<not> isWhitespace c) p \<Longrightarrow> prefix p (replaceWhitespaceRuns s) \<Longrightarrow> prefix p s"
proof (induction s arbitrary: p rule: replaceWhitespaceRuns.induct)
  case 1
  then show ?case by simp
next
  case (2 c cs)
  show ?case
  proof (cases p)
    case Nil
    then show ?thesis by simp
  next
    case (Cons x p')
    show ?thesis
    proof (cases "isWhitespace c")
      case True
      with "2.prems" Cons have "x = CHR '' ''" by simp
      with "2.prems"(1) Cons show ?thesis by (simp add: isWhitespace_def)
    next
      case False
      with "2.prems" Cons have x: "x = c" and p': "prefix p' (replaceWhitespaceRuns cs)"
        by simp_all
      from "2.prems"(1) Cons have "list_all (\<lambda>c. \<not> isWhitespace c) p'" by simp
      from "2.IH"(2) [OF False this p'] x Cons show ?thesis by simp
    qed
  qed
qed

lemma sublist_replaceWhitespaceRuns:
  assumes "list_all (\<lambda>c. \<not> isWhitespace c) p"
  shows "sublist p (replaceWhitespaceRuns s) \<Longrightarrow> sublist p s"
proof (induction s rule: replaceWhitespaceRuns.induct)
  case 1
  then show ?case by simp
next
  case (2 c cs)
  show ?case
  proof (cases "prefix p (replaceWhitespaceRuns (c # cs))")
    case True
    from prefix_replaceWhitespaceRuns [OF assms this] show ?thesis
      by (rule prefix_imp_sublist)
  next
    case noprefix: False
    show ?thesis
    proof (cases "isWhitespace c")
      case True
      with "2.prems" noprefix
      have "sublist p (replaceWhitespaceRuns (dropWhile isWhitespace cs))"
        by (simp add: sublist_Cons_right)
      with "2.IH"(1) [OF True] have "sublist p (dropWhile isWhitespace cs)" .
      moreover have "suffix (dropWhile isWhitespace cs) (c # cs)"
        by (simp add: suffix_Cons suffix_dropWhile)
      ultimately show ?thesis by (rule sublist_suffix)
    next
      case False
      with "2.prems" noprefix have "sublist p (replaceWhitespaceRuns cs)"
        by (simp add: sublist_Cons_right)
      with "2.IH"(2) [OF False] have "sublist p cs" .
      then show ?thesis by (simp add: sublist_Cons_right)
    qed
  qed
qed

lemma prefix_closeTagGaps:
  "CHR ''>'' \<notin> set (butlast p) \<Longrightarrow> prefix p (closeTagGaps s) \<Longrightarrow> prefix p s"
proof (induction s arbitrary: p rule: closeTagGaps.induct)
  case 1
  then show ?case by simp
next
  case (2 c cs)
  show ?case
  proof (cases p)
    case Nil
    then show ?thesis by simp
  next
    case (Cons x p')
    show ?thesis
    proof (cases "c = CHR ''>'' \<and> tagFollows cs")
      case True
      with "2.prems"(2) Cons have "x = CHR ''>''" by simp
      with "2.prems"(1) Cons have "p' = []" by (cases p') auto
      with True Cons \<open>x = CHR ''>''\<close> show ?thesis by simp
    next
      case False
      with "2.prems"(2) Cons have x: "x = c" and p': "prefix p' (closeTagGaps cs)"
        by auto
      from "2.prems"(1) Cons have "CHR ''>'' \<notin> set (butlast p')"
        by (cases p') auto
      from "2.IH"(2) [OF False this p'] x Cons show ?thesis by simp
    qed
  qed
qed

lemma sublist_closeTagGaps:
  assumes "p \<noteq> []" "hd p = CHR ''<''" "CHR ''>'' \<notin> set (butlast p)"
  shows "sublist p (closeTagGaps s) \<Longrightarrow> sublist p s"
proof (induction "length s" arbitrary: s rule: less_induct)
  case less
  show ?case
  proof (cases "prefix p (closeTagGaps s)")
    case True
    from prefix_closeTagGaps [OF assms(3) this] show ?thesis
      by (rule prefix_imp_sublist)
  next
    case noprefix: False
    show ?thesis
    proof (cases s)
      case Nil
      with less.prems show ?thesis by simp
    next
      case (Cons c cs)
      show ?thesis
      proof (cases "c = CHR ''>'' \<and> tagFollows cs")
        case True
        then obtain r where dw: "dropWhile isWhitespace cs = CHR ''<'' # r"
          by (auto simp: tagFollows_def split: list.splits)
        have out: "closeTagGaps s = CHR ''>'' # closeTagGaps (dropWhile isWhitespace cs)"
          using True Cons by (simp add: dw)
        from less.prems noprefix have "sublist p (closeTagGaps (dropWhile isWhitespace cs))"
          unfolding out by (simp add: sublist_Cons_right)
        moreover have "length (dropWhile isWhitespace cs) < length s"
          using Cons by (simp add: length_dropWhile_less)
        ultimately have "sublist p (dropWhile isWhitespace cs)"
          using less.hyps by blast
        moreover have "suffix (dropWhile isWhitespace cs) s"
          unfolding Cons by (simp add: suffix_Cons suffix_dropWhile)
        ultimately show ?thesis by (rule sublist_suffix)
      next
        case False
        then have out: "closeTagGaps s = c # closeTagGaps cs"
          using Cons by auto
        from less.prems noprefix have "sublist p (closeTagGaps cs)"
          unfolding out by (simp add: sublist_Cons_right)
        with less.hyps [of cs] Cons have "sublist p cs" by simp
        then show ?thesis unfolding Cons by (simp add: sublist_Cons_right)
      qed
    qed
  qed
qed

lemma sublist_trim: "sublist p (trim s) \<Longrightarrow> sublist p s"
proof -
  assume a: "sublist p (trim s)"
  obtain pre post where "s = pre @ trim s @ post"
    using trim_decomp by blast
  then have "sublist (trim s) s" by (metis sublist_appendI)
  with a show ?thesis by (rule sublist_trans)
qed

lemma sublist_indent:
  assumes "p \<noteq> []" "hd p = CHR ''<''"
  shows "sublist p (replicate n CHR '' '' @ s) \<Longrightarrow> sublist p s"
proof (induction n)
  case 0
  then show ?case by simp
next
  case (Suc n)
  have "\<not> prefix p (CHR '' '' # t)" for t
    using assms by (cases p) auto
  with Suc show ?case by (simp add: sublist_Cons_right)
qed

lemma sublist_before_tag:
  assumes "p \<noteq> []" "CHR ''<'' \<notin> set (tl p)" "prefix ''<'' b" "sublist p (a @ b)"
  shows "sublist p a \<or> sublist p b"
proof -
  from assms(4) consider "sublist p a" | "sublist p b"
    | xs1 xs2 where "p = xs1 @ xs2" "suffix xs1 a" "prefix xs2 b"
    unfolding sublist_append by blast
  then show ?thesis
  proof cases
    case 3
    show ?thesis
    proof (cases "xs1 = [] \<or> xs2 = []")
      case True
      with 3 show ?thesis by auto
    next
      case False
      then obtain y ys z zs where xs: "xs2 = y # ys" "xs1 = z # zs"
        by (cases xs1; cases xs2) auto
      from assms(3) obtain b' where "b = CHR ''<'' # b'" by (auto simp: prefix_def)
      with 3(3) xs have "y = CHR ''<''" by simp
      with 3(1) xs assms(2) show ?thesis by simp
    qed
  qed auto
qed

lemma sublist_join:
  assumes "sep \<notin> set p" "p \<noteq> []"
  shows "sublist p (join [sep] lines) \<Longrightarrow> \<exists>l\<in>set lines. sublist p l"
proof (induction lines)
  case Nil
  with assms show ?case by simp
next
  case (Cons x r)
  show ?case
  proof (cases r)
    case Nil
    with Cons.prems show ?thesis by simp
  next
    case (Cons y r')
    with Cons.prems have "sublist p (x @ sep # join [sep] r)" by simp
    then consider "sublist p x" | "sublist p (sep # join [sep] r)"
      | xs1 xs2 where "p = xs1 @ xs2" "suffix xs1 x" "prefix xs2 (sep # join [sep] r)"
      unfolding sublist_append by blast
    then show ?thesis
    proof cases
      case 1
      then show ?thesis by auto
    next
      case 2
      have "\<not> prefix p (sep # t)" for t
        using assms by (cases p) auto
      with 2 have "sublist p (join [sep] r)" by (simp add: sublist_Cons_right)
      with Cons.IH show ?thesis by auto
    next
      case 3
      show ?thesis
      proof (cases xs2)
        case Nil
        with 3 show ?thesis by auto
      next
        case (Cons z zs)
        with 3(3) have "z = sep" by simp
        with 3(1) Cons assms(1) show ?thesis by simp
      qed
    qed
  qed
qed

lemma tagAt_decomp: "tagAt s = Some (tag, rest) \<Longrightarrow> s = tag @ rest"
proof -
  assume a: "tagAt s = Some (tag, rest)"
  then obtain c cs where s: "s = c # cs" by (cases s) (auto simp: tagAt_def)
  let ?P = "\<lambda>x. x \<noteq> CHR ''>''"
  from a s have tag: "tag = c # takeWhile ?P cs @ ''>''" and rest: "rest = tl (dropWhile ?P cs)"
    and ne: "dropWhile ?P cs \<noteq> []"
    by (auto simp: tagAt_def Let_def split: if_splits)
  from ne have "hd (dropWhile ?P cs) = CHR ''>''"
    using hd_dropWhile [of ?P cs] by auto
  with ne have "dropWhile ?P cs = CHR ''>'' # tl (dropWhile ?P cs)"
    by (cases "dropWhile ?P cs") auto
  then have "cs = takeWhile ?P cs @ CHR ''>'' # tl (dropWhile ?P cs)"
    by (metis takeWhile_dropWhile_id)
  with s tag rest show ?thesis by simp
qed

lemma splitOnTags_parts: "x \<in> set (splitOnTags t s) \<Longrightarrow> sublist x (t @ s)"
proof (induction t s rule: splitOnTags.induct)
  case (1 t)
  then show ?case by simp
next
  case (2 t c cs)
  show ?case
  proof (cases "tagAt (c # cs)")
    case None
    with 2 show ?thesis by simp
  next
    case (Some a)
    obtain tag rest where a: "a = (tag, rest)" by (cases a)
    with Some have eq: "c # cs = tag @ rest" by (simp add: tagAt_decomp)
    from "2.prems" Some a consider "x = t" | "x = tag" | "x \<in> set (splitOnTags [] rest)"
      by auto
    then show ?thesis
    proof cases
      case 1
      then show ?thesis by simp
    next
      case 2
      then show ?thesis unfolding eq by simp
    next
      case 3
      with "2.IH"(2) [OF Some a [symmetric]] have "sublist x rest" by simp
      then show ?thesis unfolding eq
        by (metis append_assoc sublist_append)
    qed
  qed
qed

lemma prettifyPart_lines:
  assumes "prettifyPart re (n, lines) raw = Inr (n', lines')"
  shows "lines' = lines \<or> (\<exists>k. lines' = pushLine k (trim raw) lines)
         \<or> (lines \<noteq> [] \<and> prefix ''<'' (trim raw)
            \<and> lines' = lines[length lines - 1 := last lines @ trim raw])"
  using assms
  by (auto simp: prettifyPart_def Let_def truthy_def split: if_splits sum.splits)

lemma prettifyPart_invariant:
  assumes p: "p \<noteq> []" "hd p = CHR ''<''" "CHR ''<'' \<notin> set (tl p)"
    and step: "prettifyPart re (n, lines) raw = Inr (n', lines')"
    and inv: "\<forall>l\<in>set lines. \<not> sublist p l" and raw: "\<not> sublist p raw"
  shows "\<forall>l\<in>set lines'. \<not> sublist p l"
proof -
  from raw have part: "\<not> sublist p (trim raw)" using sublist_trim by blast
  from prettifyPart_lines [OF step]
  consider "lines' = lines" | k where "lines' = pushLine k (trim raw) lines"
    | "lines \<noteq> []" "prefix ''<'' (trim raw)"
      "lines' = lines[length lines - 1 := last lines @ trim raw]"
    by blast
  then show ?thesis
  proof cases
    case 1
    with inv show ?thesis by simp
  next
    case 2
    have "\<not> sublist p (replicate (k * indentSize) CHR '' '' @ trim raw)"
      using part sublist_indent [OF p(1,2)] by blast
    with inv 2 show ?thesis by (auto simp: pushLine_def)
  next
    case 3
    from 3(1) inv have "\<not> sublist p (last lines)" by simp
    with part have new: "\<not> sublist p (last lines @ trim raw)"
      using sublist_before_tag [OF p(1,3) 3(2)] by blast
    have "set lines' \<subseteq> insert (last lines @ trim raw) (set lines)"
      unfolding 3(3) by (rule set_update_subset_insert)
    with new inv show ?thesis by auto
  qed
qed

lemma prettifyParts_invariant:
  assumes p: "p \<noteq> []" "hd p = CHR ''<''" "CHR ''<'' \<notin> set (tl p)"
  shows "prettifyParts re state parts = Inr state' \<Longrightarrow> \<forall>l\<in>set (snd state). \<not> sublist p l
     \<Longrightarrow> \<forall>x\<in>set parts. \<not> sublist p x \<Longrightarrow> \<forall>l\<in>set (snd state'). \<not> sublist p l"
proof (induction parts arbitrary: state)
  case Nil
  then show ?case by simp
next
  case (Cons part parts)
  from Cons.prems(1) obtain mid where mid: "prettifyPart re state part = Inr mid"
    and rest: "prettifyParts re mid parts = Inr state'"
    by (auto split: sum.splits)
  have "\<forall>l\<in>set (snd mid). \<not> sublist p l"
    using prettifyPart_invariant [OF p, of re "fst state" "snd state" part "fst mid" "snd mid"]
      mid Cons.prems(2,3) by simp
  with Cons.IH [OF rest] Cons.prems(3) show ?case by simp
qed

lemma prettifyHtml_adds_no_marker:
  assumes "markerLike p" "prettifyHtml re html = Inr out" "sublist p out"
  shows "sublist p html"
proof -
  from assms(1) have p: "p \<noteq> []" "hd p = CHR ''<''" "CHR ''<'' \<notin> set (tl p)"
    and gt: "CHR ''>'' \<notin> set (butlast p)" and ws: "list_all (\<lambda>c. \<not> isWhitespace c) p"
    by (simp_all add: markerLike_def)
  let ?html = "trim (closeTagGaps (replaceWhitespaceRuns html))"
  from assms(2) obtain n lines
    where loop: "prettifyParts re (0, []) (splitOnTags [] ?html) = Inr (n, lines)"
      and out: "out = join [CHR 0x0A] lines"
    by (auto simp: prettifyHtml_def Let_def split: sum.splits prod.splits)
  have nl: "CHR 0x0A \<notin> set p"
    using ws by (auto simp: list_all_iff isWhitespace_def)
  from assms(3) out obtain l where l: "l \<in> set lines" "sublist p l"
    using sublist_join [OF nl p(1)] by blast
  have "\<exists>x\<in>set (splitOnTags [] ?html). sublist p x"
  proof (rule ccontr)
    assume "\<not> ?thesis"
    then have "\<forall>x\<in>set (splitOnTags [] ?html). \<not> sublist p x" by blast
    from prettifyParts_invariant [OF p loop _ this] l show False by simp
  qed
  then obtain x where "x \<in> set (splitOnTags [] ?html)" "sublist p x" by blast
  with splitOnTags_parts [of x "[]" ?html] have "sublist p ?html"
    by (auto intro: sublist_trans)
  then have "sublist p (closeTagGaps (replaceWhitespaceRuns html))" by (rule sublist_trim)
  then have "sublist p (replaceWhitespaceRuns html)"
    by (rule sublist_closeTagGaps [OF p(1,2) gt])
  then show ?thesis by (rule sublist_replaceWhitespaceRuns [OF ws])
qed

lemma markerLike_sentinels:
  "markerLike ''<mock:shadow-root''" "markerLike ''</mock:shadow-root>''"
  by (simp_all add: markerLike_def isWhitespace_def)

text \<open>
  The serializer copies text, comments, tag names and attributes into the markup as they
  are, so a tree can spell a sentinel tag with its own content. \<open>diverges p u\<close> says that
  \<open>p\<close> and \<open>u\<close> differ at a position both have, and a string is sealed against \<open>p\<close> when
  what follows each of its \<^verbatim>\<open><\<close> diverges from \<open>p\<close>: no \<^verbatim>\<open><\<close> of the string begins
  \<^verbatim>\<open><\<close>\<open>p\<close>, nor would it whatever is written behind the string. A string is unspelled
  when it is sealed against both sentinels; for a string that ends with \<^verbatim>\<open>>\<close> this is to
  contain no sentinel.
\<close>

definition diverges :: "string \<Rightarrow> string \<Rightarrow> bool" where
  "diverges p u = (\<not> prefix p u \<and> \<not> prefix u p)"

fun sealed :: "string \<Rightarrow> string \<Rightarrow> bool" where
  "sealed p [] = True"
| "sealed p (c # cs) = ((c \<noteq> CHR ''<'' \<or> diverges p cs) \<and> sealed p cs)"

definition unspelled :: "string \<Rightarrow> bool" where
  "unspelled s = (sealed ''mock:shadow-root'' s \<and> sealed ''/mock:shadow-root>'' s)"

text \<open>
  The light tree of an element spells no sentinel when none of the pieces of markup that
  it contributes does: no opening tag with its attributes, no closing tag, no comment
  contains a sentinel, and every text is unspelled. Shadow roots and override lists are
  not looked at.
\<close>

fun unspelledElement :: "element \<Rightarrow> bool"
  and unspelledNodes :: "node list \<Rightarrow> bool"
where
  "unspelledElement (Element lnm tn as sr ov cs) =
     (\<not> containsSentinel (openingTag (Element lnm tn as sr ov cs))
      \<and> \<not> containsSentinel (''</'' @ elementTag (Element lnm tn as sr ov cs) @ ''>'')
      \<and> unspelledNodes cs)"
| "unspelledNodes [] = True"
| "unspelledNodes (child # rest) =
     ((case child of
         ElementNode childElem \<Rightarrow> unspelledElement childElem
       | TextNode text \<Rightarrow> unspelled text
       | CommentNode text \<Rightarrow> \<not> containsSentinel (commentMarkup text)
       | OtherNode \<Rightarrow> True)
      \<and> unspelledNodes rest)"

text \<open>
  The light tree of an element: the element without its shadow root and its override
  list, and so for the elements among its public children.
\<close>

fun lightTree :: "element \<Rightarrow> element"
  and lightNodes :: "node list \<Rightarrow> node list"
where
  "lightTree (Element lnm tn as sr ov cs) = Element lnm tn as None None (lightNodes cs)"
| "lightNodes [] = []"
| "lightNodes (child # rest) =
     (case child of
        ElementNode childElem \<Rightarrow> ElementNode (lightTree childElem)
      | TextNode text \<Rightarrow> TextNode text
      | CommentNode text \<Rightarrow> CommentNode text
      | OtherNode \<Rightarrow> OtherNode)
     # lightNodes rest"

lemma diverges_append: "diverges p u \<Longrightarrow> diverges p (u @ r)"
  by (auto simp: diverges_def prefix_append dest: append_prefixD)

lemma sealed_append: "sealed p a \<Longrightarrow> sealed p b \<Longrightarrow> sealed p (a @ b)"
  by (induction a) (auto intro: diverges_append)

lemma sealed_not_sublist: "sealed p s \<Longrightarrow> \<not> sublist (CHR ''<'' # p) s"
  by (induction s) (auto simp: sublist_Cons_right diverges_def)

lemma unspelled_no_sentinel: "unspelled s \<Longrightarrow> \<not> containsSentinel s"
  using sealed_not_sublist [of "''mock:shadow-root''" s]
    sealed_not_sublist [of "''/mock:shadow-root>''" s]
  by (simp add: unspelled_def containsSentinel_def)

lemma unspelled_append: "unspelled a \<Longrightarrow> unspelled b \<Longrightarrow> unspelled (a @ b)"
  by (simp add: unspelled_def sealed_append)

lemma unspelled_Nil: "unspelled []"
  by (simp add: unspelled_def)

lemma sealed_closed:
  assumes "CHR ''>'' \<notin> set (butlast p)"
  shows "\<not> sublist (CHR ''<'' # p) (s @ ''>'') \<Longrightarrow> sealed p (s @ ''>'')"
proof (induction s)
  case Nil
  show ?case by simp
next
  case (Cons c cs)
  from Cons.prems have np: "\<not> prefix (CHR ''<'' # p) (c # cs @ ''>'')"
    and rest: "\<not> sublist (CHR ''<'' # p) (cs @ ''>'')"
    by (simp_all add: sublist_Cons_right)
  have "diverges p (cs @ ''>'')" if c: "c = CHR ''<''"
  proof -
    from np c have 1: "\<not> prefix p (cs @ ''>'')" by simp
    have "\<not> prefix (cs @ ''>'') p"
    proof
      assume "prefix (cs @ ''>'') p"
      then obtain r where p: "p = cs @ ''>'' @ r" by (auto simp: prefix_def)
      have "r = []"
      proof (rule ccontr)
        assume "r \<noteq> []"
        then have "butlast p = cs @ ''>'' @ butlast r"
          unfolding p by (simp add: butlast_append)
        with assms show False by simp
      qed
      with p 1 show False by simp
    qed
    with 1 show ?thesis by (simp add: diverges_def)
  qed
  with Cons.IH [OF rest] show ?case by simp
qed

lemma unspelled_closed: "\<not> containsSentinel (s @ ''>'') \<Longrightarrow> unspelled (s @ ''>'')"
  using sealed_closed [of "''mock:shadow-root''" s] sealed_closed [of "''/mock:shadow-root>''" s]
  by (simp add: unspelled_def containsSentinel_def)

text \<open>
  The condition on a text is the weakest that can be put on a single node: a text that is
  not unspelled contains a sentinel or begins one, which the text of the next node can
  finish.
\<close>

lemma not_sealed_completes: "\<not> sealed p s \<Longrightarrow> \<exists>u. sublist (CHR ''<'' # p) (s @ u)"
proof (induction s)
  case Nil
  then show ?case by simp
next
  case (Cons c cs)
  show ?case
  proof (cases "sealed p cs")
    case False
    with Cons.IH obtain u where "sublist (CHR ''<'' # p) (cs @ u)" by blast
    then have "sublist (CHR ''<'' # p) ((c # cs) @ u)" by (simp add: sublist_Cons_right)
    then show ?thesis by blast
  next
    case True
    with Cons.prems have c: "c = CHR ''<''" and nd: "\<not> diverges p cs" by auto
    from nd consider "prefix p cs" | "prefix cs p" by (auto simp: diverges_def)
    then show ?thesis
    proof cases
      case 1
      with c have "sublist (CHR ''<'' # p) ((c # cs) @ [])" by simp
      then show ?thesis by blast
    next
      case 2
      then obtain v where "p = cs @ v" by (auto simp: prefix_def)
      with c have "sublist (CHR ''<'' # p) ((c # cs) @ v)" by simp
      then show ?thesis by blast
    qed
  qed
qed

lemma unspelled_weakest:
  assumes "\<not> unspelled t"
  shows "\<exists>u. containsSentinel (childrenLoop [TextNode t, TextNode u] ex sh)"
proof -
  from assms consider "\<not> sealed ''mock:shadow-root'' t" | "\<not> sealed ''/mock:shadow-root>'' t"
    by (auto simp: unspelled_def)
  then obtain u where "containsSentinel (t @ u)"
  proof cases
    case 1
    from not_sealed_completes [OF this] that show ?thesis
      by (auto simp: containsSentinel_def)
  next
    case 2
    from not_sealed_completes [OF this] that show ?thesis
      by (auto simp: containsSentinel_def)
  qed
  then show ?thesis by auto
qed

lemma light_serialization_unspelled:
  "unspelledElement e \<Longrightarrow> unspelled (serializeElementWithShadow e ex False)"
  "unspelledNodes cs \<Longrightarrow> unspelled (childrenLoop cs ex False)"
proof (induction e and cs rule: unspelledElement_unspelledNodes.induct)
  case (1 lnm tn as sr ov cs)
  let ?e = "Element lnm tn as sr ov cs"
  from 1 have kids: "unspelled (childrenLoop cs ex False)" by simp
  have "openingTag ?e = (''<'' @ elementTag ?e @ serializeAttributes (attributes ?e)) @ ''>''"
    by (simp add: openingTag_def)
  with "1.prems" have otag: "unspelled (openingTag ?e)"
    using unspelled_closed [of "''<'' @ elementTag ?e @ serializeAttributes (attributes ?e)"]
    by simp
  from "1.prems" have ctag: "unspelled (''</'' @ elementTag ?e @ ''>'')"
    using unspelled_closed [of "''</'' @ elementTag ?e"] by simp
  from otag ctag kids show ?case
    by (simp add: serializeElementWithShadow_parts shadowPart_def lightPart_def
        unspelled_append unspelled_Nil del: serializeElementWithShadow.simps)
next
  case 2
  show ?case by (simp add: unspelled_Nil)
next
  case (3 child rest)
  then have rest: "unspelled (childrenLoop rest ex False)" by simp
  have "unspelled (case child of
            ElementNode childElem \<Rightarrow> serializeElementWithShadow childElem ex False
          | TextNode text \<Rightarrow> text
          | CommentNode text \<Rightarrow> (if text \<noteq> [] then commentMarkup text else [])
          | OtherNode \<Rightarrow> [])"
  proof (cases child)
    case (ElementNode x1)
    with 3 show ?thesis by simp
  next
    case (TextNode x2)
    with 3 show ?thesis by simp
  next
    case (CommentNode x3)
    have "commentMarkup x3 = (''<!--'' @ x3 @ ''--'') @ ''>''"
      by (simp add: commentMarkup_def)
    with "3.prems" CommentNode have "unspelled (commentMarkup x3)"
      using unspelled_closed [of "''<!--'' @ x3 @ ''--''"] by simp
    with CommentNode show ?thesis by (simp add: unspelled_Nil)
  next
    case OtherNode
    then show ?thesis by (simp add: unspelled_Nil)
  qed
  with rest show ?case
    by (simp add: unspelled_append del: serializeElementWithShadow.simps)
qed

text \<open>
  With \<^verbatim>\<open>serializeShadowRoot: false\<close> the markup is that of the light tree, whichever
  value the flag has for the light tree.
\<close>

lemma light_serialization_ignores_shadow:
  "serializeElementWithShadow (lightTree e) ex sh = serializeElementWithShadow e ex False"
  "childrenLoop (lightNodes cs) ex sh = childrenLoop cs ex False"
proof (induction e and cs rule: lightTree_lightNodes.induct)
  case (1 lnm tn as sr ov cs)
  then show ?case
    by (simp add: serializeElementWithShadow_parts shadowPart_def lightPart_def openingTag_def
        elementTag_def del: serializeElementWithShadow.simps)
next
  case 2
  show ?case by simp
next
  case (3 child rest)
  then show ?case
    by (cases child) (simp_all del: serializeElementWithShadow.simps)
qed

lemma prettifyHtml_adds_no_sentinel:
  assumes "prettifyHtml regExpTest html = Inr out" "containsSentinel out"
  shows "containsSentinel html"
  using assms prettifyHtml_adds_no_marker [OF markerLike_sentinels(1) assms(1)]
    prettifyHtml_adds_no_marker [OF markerLike_sentinels(2) assms(1)]
  by (auto simp: containsSentinel_def)

lemma serialized_markup_no_sentinel:
  assumes "\<not> containsSentinel html"
    and "(if pr then prettifyHtml regExpTest html else Inr html) = Inr out"
  shows "\<not> containsSentinel out"
  using assms prettifyHtml_adds_no_sentinel [of regExpTest html out]
  by (auto split: if_splits)

text \<open>
  Claim C4, as amended. With \<^verbatim>\<open>serializeShadowRoot: false\<close> the serializer adds no shadow
  block: for every pretty-printer and each value of \<^verbatim>\<open>pretty\<close>, what
  \<^verbatim>\<open>serializeHtml\<close> gives for an element is what it gives for the light tree of the
  element, under either value of the flag. With \<^verbatim>\<open>prettifyHtml\<close> as the pretty-printer,
  whatever the regular-expression engine answers: when the light tree spells no sentinel,
  the string returned for an element or a fragment contains no sentinel tag, whatever
  shadow trees the elements carry; and a string is returned when pretty-printing is off or
  the engine throws on no expression.
\<close>

theorem light_serialization_has_no_sentinel:
  assumes "serializeShadowRoot options = Some False"
  shows "serializeHtml prettify (InputElement elem) options
           = serializeHtml prettify (InputElement (lightTree elem))
               (options\<lparr>serializeShadowRoot := flag\<rparr>)
         \<and> (unspelledElement elem \<longrightarrow>
              (\<forall>out. serializeHtml (prettifyHtml regExpTest) (InputElement elem) options = Inr out
                 \<longrightarrow> \<not> containsSentinel out))
         \<and> (unspelledNodes children \<longrightarrow>
              (\<forall>out. serializeHtml (prettifyHtml regExpTest) (InputFragment children) options
                       = Inr out
                 \<longrightarrow> \<not> containsSentinel out))
         \<and> (pretty options = Some False \<or> (\<forall>source str. \<exists>b. regExpTest source str = Inr b) \<longrightarrow>
              (\<exists>out. serializeHtml (prettifyHtml regExpTest) (InputElement elem) options = Inr out)
              \<and> (\<exists>out. serializeHtml (prettifyHtml regExpTest) (InputFragment children) options
                         = Inr out))"
proof -
  let ?ex = "case excludeStyles options of None \<Rightarrow> True | Some b \<Rightarrow> b"
  let ?pr = "case pretty options of None \<Rightarrow> True | Some b \<Rightarrow> b"
  let ?P = "prettifyHtml regExpTest"
  have elem: "serializeHtml p (InputElement elem) options
                = (if ?pr then p (serializeElementWithShadow elem ?ex False)
                   else Inr (serializeElementWithShadow elem ?ex False))" for p
    using assms by (simp add: serializeHtml_def Let_def del: serializeElementWithShadow.simps)
  have frag: "serializeHtml p (InputFragment children) options
                = (if ?pr then p (childrenLoop children ?ex False)
                   else Inr (childrenLoop children ?ex False))" for p
    using assms by (simp add: serializeHtml_def serializeFragment_def Let_def)
  have 1: "serializeHtml prettify (InputElement elem) options
          = serializeHtml prettify (InputElement (lightTree elem))
              (options\<lparr>serializeShadowRoot := flag\<rparr>)"
    using assms
    by (simp add: serializeHtml_def Let_def light_serialization_ignores_shadow(1)
        del: serializeElementWithShadow.simps)
  have 2: "\<not> containsSentinel out"
    if "unspelledElement elem" "serializeHtml ?P (InputElement elem) options = Inr out" for out
  proof -
    from that(1) have "\<not> containsSentinel (serializeElementWithShadow elem ?ex False)"
      by (intro unspelled_no_sentinel light_serialization_unspelled(1))
    then show ?thesis
      using that(2) unfolding elem by (rule serialized_markup_no_sentinel)
  qed
  have 3: "\<not> containsSentinel out"
    if "unspelledNodes children" "serializeHtml ?P (InputFragment children) options = Inr out"
    for out
  proof -
    from that(1) have "\<not> containsSentinel (childrenLoop children ?ex False)"
      by (intro unspelled_no_sentinel light_serialization_unspelled(2))
    then show ?thesis
      using that(2) unfolding frag by (rule serialized_markup_no_sentinel)
  qed
  have 4: "(\<exists>out. serializeHtml ?P (InputElement elem) options = Inr out)
           \<and> (\<exists>out. serializeHtml ?P (InputFragment children) options = Inr out)"
    if "pretty options = Some False \<or> (\<forall>source str. \<exists>b. regExpTest source str = Inr b)"
  proof (cases "pretty options = Some False")
    case True
    then show ?thesis unfolding elem frag by simp
  next
    case False
    with that have "\<exists>out. ?P html = Inr out" for html
      by (intro prettifyHtml_returns) simp
    then show ?thesis unfolding elem frag by simp
  qed
  from 1 2 3 4 show ?thesis by blast
qed

text \<open>
  The host below carries a shadow tree with a button and has the light text
  \<^verbatim>\<open>Click me\<close>. With \<^verbatim>\<open>serializeShadowRoot: false\<close> and the other options left out,
  as \<^verbatim>\<open>toEqualLightHtml\<close> calls it, \<^verbatim>\<open>serializeHtml\<close> gives three lines without a
  sentinel. The one expression tested is that of the tag \<^verbatim>\<open>my-button\<close> on the line of
  the text, where it finds no match; the engine is given as the function with that answer.
\<close>

theorem light_serialization_has_no_sentinel_witness:
  "unspelledElement
     (Element None ''MY-BUTTON'' None
        (Some (ShadowRoot False [ElementNode (Element None ''BUTTON'' None None None [])]))
        None [TextNode ''Click me''])
   \<and> serializeHtml (prettifyHtml (\<lambda>source str. Inr False))
       (InputElement
          (Element None ''MY-BUTTON'' None
             (Some (ShadowRoot False [ElementNode (Element None ''BUTTON'' None None None [])]))
             None [TextNode ''Click me'']))
       \<lparr>serializeShadowRoot = Some False, pretty = None, excludeStyles = None\<rparr>
     = Inr (''<my-button>'' @ [CHR 0x0A] @ ''  Click me'' @ [CHR 0x0A] @ ''</my-button>'')
   \<and> \<not> containsSentinel
         (''<my-button>'' @ [CHR 0x0A] @ ''  Click me'' @ [CHR 0x0A] @ ''</my-button>'')
   \<and> unspelledNodes [TextNode ''Click me'']
   \<and> serializeHtml (prettifyHtml (\<lambda>source str. Inr False)) (InputFragment [TextNode ''Click me''])
       \<lparr>serializeShadowRoot = Some False, pretty = None, excludeStyles = None\<rparr>
     = Inr ''Click me''"
proof -
  let ?e = "Element None ''MY-BUTTON'' None
        (Some (ShadowRoot False [ElementNode (Element None ''BUTTON'' None None None [])]))
        None [TextNode ''Click me'']"
  let ?o = "\<lparr>serializeShadowRoot = Some False, pretty = None, excludeStyles = None\<rparr>"
  let ?re = "(\<lambda>source str. Inr False) :: string \<Rightarrow> string \<Rightarrow> error + bool"
  have e: "unspelledElement ?e" by code_simp
  have n: "unspelledNodes [TextNode ''Click me'']" by code_simp
  have r1: "serializeHtml (prettifyHtml ?re) (InputElement ?e) ?o
        = Inr (''<my-button>'' @ [CHR 0x0A] @ ''  Click me'' @ [CHR 0x0A] @ ''</my-button>'')"
    by code_simp
  have r2: "serializeHtml (prettifyHtml ?re) (InputFragment [TextNode ''Click me'']) ?o
        = Inr ''Click me''"
    by code_simp
  from light_serialization_has_no_sentinel
         [where options = ?o and elem = ?e and children = "[TextNode ''Click me'']"
            and regExpTest = ?re]
    e r1
  have "\<not> containsSentinel
         (''<my-button>'' @ [CHR 0x0A] @ ''  Click me'' @ [CHR 0x0A] @ ''</my-button>'')"
    by simp
  with e n r1 r2 show ?thesis by simp
qed

text \<open>
  Claim C4 as stated fails on a tree whose own text spells the sentinel: text is copied
  into the markup as it is, and the pretty-printer puts it on a line of its own. The one
  expression tested there is that of the tag \<^verbatim>\<open>div\<close> on the line of the text, where it
  finds no match.
\<close>

theorem light_serialization_sentinel_counterexample:
  "serializeHtml (prettifyHtml (\<lambda>source str. Inr False))
     (InputElement (Element None ''DIV'' None None None [TextNode ''<mock:shadow-root>'']))
     \<lparr>serializeShadowRoot = Some False, pretty = Some False, excludeStyles = None\<rparr>
   = Inr ''<div><mock:shadow-root></div>''
   \<and> containsSentinel ''<div><mock:shadow-root></div>''
   \<and> serializeHtml (prettifyHtml (\<lambda>source str. Inr False))
     (InputElement (Element None ''DIV'' None None None [TextNode ''<mock:shadow-root>'']))
     \<lparr>serializeShadowRoot = Some False, pretty = None, excludeStyles = None\<rparr>
   = Inr (''<div>'' @ [CHR 0x0A] @ ''  <mock:shadow-root>'' @ [CHR 0x0A] @ ''  </div>'')
   \<and> containsSentinel
       (''<div>'' @ [CHR 0x0A] @ ''  <mock:shadow-root>'' @ [CHR 0x0A] @ ''  </div>'')"
  by code_simp

section \<open>Matchers on elements\<close>

text \<open>
  What a matcher returns: \<^verbatim>\<open>{ pass, message }\<close>. The message is a function without
  arguments in the source; the model holds what a call of it gives: a string, or for the
  HTML matchers, whose messages call the pretty-printer, a string or an exception.
\<close>

record 'm matcher_result =
  pass :: bool
  message :: 'm

text \<open>\<^verbatim>\<open>Element.getAttribute\<close>: the value of the first attribute of that name.\<close>

definition getAttribute :: "element \<Rightarrow> string \<Rightarrow> string option" where
  "getAttribute elem n =
     (case attributes elem of
        None \<Rightarrow> None
      | Some l \<Rightarrow> map_option attrValue (find (\<lambda>a. attrName a = n) l))"

text \<open>
  \<^verbatim>\<open>classAttr.split(/\s+/)\<close>: the pieces between the maximal runs of whitespace, the
  empty pieces at the ends included.
\<close>

fun splitWhitespace :: "string \<Rightarrow> string list" where
  "splitWhitespace [] = [[]]"
| "splitWhitespace (c # cs) =
     (if isWhitespace c then [] # splitWhitespace (dropWhile isWhitespace cs)
      else (case splitWhitespace cs of
              [] \<Rightarrow> [[c]]
            | w # ws \<Rightarrow> (c # w) # ws))"


text \<open>
  \<^verbatim>\<open>toMatchClasses\<close>. \<^verbatim>\<open>sort()\<close> without a comparator orders strings by their code
  units, which is the lexicographic order of \<^typ>\<open>string\<close>; \<^verbatim>\<open>filter(Boolean)\<close> drops the
  empty strings.
\<close>

definition toMatchClasses :: "element \<Rightarrow> string list \<Rightarrow> string matcher_result" where
  "toMatchClasses received classNames =
     (let classAttr = (case getAttribute received ''class'' of None \<Rightarrow> [] | Some v \<Rightarrow> v);
          actualClasses = sort (filter (\<lambda>s. s \<noteq> []) (splitWhitespace classAttr));
          expectedClasses = sort (filter (\<lambda>s. s \<noteq> []) classNames);
          ok = (length actualClasses = length expectedClasses
                \<and> list_all (\<lambda>(cls, idx). cls = expectedClasses ! idx)
                     (zip actualClasses [0..<length actualClasses]))
      in \<lparr>pass = ok,
          message =
            (if ok
             then ''Expected element not to have exactly classes ['' @ join '', '' classNames
                    @ '']''
             else ''Expected element to have exactly classes ['' @ join '', '' classNames
                    @ ''], but got ['' @ join '', '' actualClasses @ '']'')\<rparr>)"

text \<open>
  The actual class list of the claim: the \<^verbatim>\<open>class\<close> attribute split on whitespace,
  without the empty entries and before sorting.
\<close>

definition actualClassList :: "element \<Rightarrow> string list" where
  "actualClassList received =
     filter (\<lambda>s. s \<noteq> [])
       (splitWhitespace (case getAttribute received ''class'' of None \<Rightarrow> [] | Some v \<Rightarrow> v))"

lemma every_index_eq:
  "length xs = length ys \<Longrightarrow>
     list_all (\<lambda>(x, i). x = ys ! i) (zip xs [0..<length xs]) = (xs = ys)"
proof -
  assume len: "length xs = length ys"
  have "list_all (\<lambda>(x, i). x = ys ! i) (zip xs [0..<length xs])
          = (\<forall>i<length xs. xs ! i = ys ! i)"
    by (simp add: list_all_length)
  also have "\<dots> = (xs = ys)"
    using len by (simp add: list_eq_iff_nth_eq)
  finally show ?thesis .
qed

lemma sort_eq_iff_mset: "(sort xs = sort ys) = (mset xs = mset ys)"
  by (metis mset_sort properties_for_sort sorted_sort)

text \<open>
  Claim C9. \<^verbatim>\<open>toMatchClasses\<close> passes exactly when the sorted actual class list equals
  the sorted expected class list (empty entries removed from both), that is, when the two
  lists hold the same classes the same number of times: the order of either list does not
  matter, and a missing or an extra class makes it fail.
\<close>

theorem toMatchClasses_exact:
  "pass (toMatchClasses received classNames)
     = (sort (actualClassList received) = sort (filter (\<lambda>s. s \<noteq> []) classNames))
   \<and> pass (toMatchClasses received classNames)
     = (mset (actualClassList received) = mset (filter (\<lambda>s. s \<noteq> []) classNames))"
proof -
  let ?a = "sort (actualClassList received)"
  let ?e = "sort (filter (\<lambda>s. s \<noteq> []) classNames)"
  have "pass (toMatchClasses received classNames)
          = (length ?a = length ?e \<and> list_all (\<lambda>(cls, idx). cls = ?e ! idx) (zip ?a [0..<length ?a]))"
    by (simp add: toMatchClasses_def actualClassList_def Let_def)
  also have "\<dots> = (?a = ?e)"
  proof (cases "length ?a = length ?e")
    case True
    with every_index_eq [OF True] show ?thesis by simp
  next
    case False
    have "?a \<noteq> ?e"
    proof
      assume "?a = ?e"
      then have "length ?a = length ?e" by (rule arg_cong)
      with False show False by blast
    qed
    with False show ?thesis by blast
  qed
  finally have 1: "pass (toMatchClasses received classNames) = (?a = ?e)" .
  with sort_eq_iff_mset [of "actualClassList received" "filter (\<lambda>s. s \<noteq> []) classNames"]
  show ?thesis by simp
qed

theorem toMatchClasses_exact_witness:
  "pass (toMatchClasses
           (Element None ''BUTTON''
              (Some [\<lparr>attrName = ''class'', attrPrefix = None, attrLocalName = None,
                      attrValue = ''button button--primary  button--medium''\<rparr>])
              None None [])
           [''button--medium'', ''button--primary'', ''button''])
   \<and> \<not> pass (toMatchClasses
           (Element None ''BUTTON''
              (Some [\<lparr>attrName = ''class'', attrPrefix = None, attrLocalName = None,
                      attrValue = ''button button--primary  button--medium''\<rparr>])
              None None [])
           [''button''])"
  using
    toMatchClasses_exact
      [of "Element None ''BUTTON''
              (Some [\<lparr>attrName = ''class'', attrPrefix = None, attrLocalName = None,
                      attrValue = ''button button--primary  button--medium''\<rparr>])
              None None []"
          "[''button--medium'', ''button--primary'', ''button'']"]
    toMatchClasses_exact
      [of "Element None ''BUTTON''
              (Some [\<lparr>attrName = ''class'', attrPrefix = None, attrLocalName = None,
                      attrValue = ''button button--primary  button--medium''\<rparr>])
              None None []"
          "[''button'']"]
  by (simp add: actualClassList_def getAttribute_def isWhitespace_def)


section \<open>JavaScript values\<close>

text \<open>
  The \<^verbatim>\<open>detail\<close> of an event is any JavaScript value, and it may refer to itself. Values
  are modelled with an explicit store: a value is a primitive or the address of an object,
  and the heap lists, for each address, the own enumerable properties of that object in
  their order. Objects are plain objects, with \<^verbatim>\<open>Object.prototype\<close> as their prototype
  (no array, no function, no getter, no \<^verbatim>\<open>toJSON\<close>). An address outside the heap has no
  properties.

  A number is a rational, \<^verbatim>\<open>NaN\<close> or one of the two infinities. The finite numbers of
  JavaScript are among the rationals, and the two zeros, which no operation used here tells
  apart, are the one rational 0.
\<close>

type_synonym addr = nat

datatype number = Finite rat | NaN | PosInfinity | NegInfinity

text \<open>
  The comparisons \<^verbatim>\<open><\<close>, \<^verbatim>\<open>>=\<close> and \<^verbatim>\<open>===\<close> on numbers. Each of them is false
  when an operand is \<^verbatim>\<open>NaN\<close>.
\<close>

fun numberLessThan :: "number \<Rightarrow> number \<Rightarrow> bool" where
  "numberLessThan NaN y = False"
| "numberLessThan x NaN = False"
| "numberLessThan (Finite x) (Finite y) = (x < y)"
| "numberLessThan x PosInfinity = (x \<noteq> PosInfinity)"
| "numberLessThan NegInfinity y = (y \<noteq> NegInfinity)"
| "numberLessThan x NegInfinity = False"
| "numberLessThan PosInfinity y = False"

definition numberGreaterEqual :: "number \<Rightarrow> number \<Rightarrow> bool" where
  "numberGreaterEqual x y = (x \<noteq> NaN \<and> y \<noteq> NaN \<and> \<not> numberLessThan x y)"

definition numberEquals :: "number \<Rightarrow> number \<Rightarrow> bool" where
  "numberEquals x y = (x \<noteq> NaN \<and> x = y)"

definition isInteger :: "rat \<Rightarrow> bool" where
  "isInteger q = (of_int \<lfloor>q\<rfloor> = q)"

datatype jsval =
  JSUndefined
| JSNull
| JSBoolean bool
| JSNumber number
| JSString string
| JSObject addr

type_synonym properties = "(string \<times> jsval) list"
type_synonym heap = "properties list"

definition ownProperties :: "heap \<Rightarrow> addr \<Rightarrow> properties" where
  "ownProperties h a = (if a < length h then h ! a else [])"

text \<open>The decimal text of an integer.\<close>

definition digitChar :: "nat \<Rightarrow> char" where
  "digitChar n = ''0123456789'' ! (n mod 10)"

fun showNat :: "nat \<Rightarrow> string" where
  "showNat n = (if n < 10 then [digitChar n] else showNat (n div 10) @ [digitChar n])"

declare showNat.simps [simp del]

definition showInt :: "int \<Rightarrow> string" where
  "showInt i = (if i < 0 then ''-'' @ showNat (nat (- i)) else showNat (nat i))"

text \<open>
  \<^verbatim>\<open>Number::toString\<close>, which \<^verbatim>\<open>String(value)\<close>, a template literal and
  \<^verbatim>\<open>JSON.stringify\<close> apply to a number. An integer up to \<open>2\<^sup>5\<^sup>3\<close> in magnitude is
  printed with its decimal digits. The text of every other finite number (a fraction such
  as \<^verbatim>\<open>0.5\<close>, a large number such as \<^verbatim>\<open>1e+21\<close>) is left to the parameter
  \<open>fmt\<close>, which stands for the rest of the algorithm; every function that prints a number
  takes it, and every theorem holds for every \<open>fmt\<close>.
\<close>

definition numberToString :: "(rat \<Rightarrow> string) \<Rightarrow> number \<Rightarrow> string" where
  "numberToString fmt x =
     (case x of
        NaN \<Rightarrow> ''NaN''
      | PosInfinity \<Rightarrow> ''Infinity''
      | NegInfinity \<Rightarrow> ''-Infinity''
      | Finite q \<Rightarrow>
          (if isInteger q \<and> \<bar>q\<bar> \<le> 2 ^ 53 then showInt \<lfloor>q\<rfloor> else fmt q))"

text \<open>
  \<^verbatim>\<open>JSON.stringify\<close>, after the abstract operations \<^verbatim>\<open>QuoteJSONString\<close>,
  \<^verbatim>\<open>SerializeJSONProperty\<close> and \<^verbatim>\<open>SerializeJSONObject\<close> of ECMAScript: a string is
  quoted and escaped; a finite number has the text of \<^verbatim>\<open>Number::toString\<close> and every
  other number the text \<^verbatim>\<open>null\<close>; \<^verbatim>\<open>undefined\<close> has no text and a property holding
  it is left out;
  an object that is already on the stack of objects being serialized raises the
  \<^verbatim>\<open>TypeError\<close> for a circular structure.
\<close>

definition hexDigit :: "nat \<Rightarrow> char" where
  "hexDigit n = ''0123456789abcdef'' ! (n mod 16)"

definition quoteChar :: "char \<Rightarrow> string" where
  "quoteChar c =
     (if c = CHR 0x22 then [CHR 0x5C, CHR 0x22]
      else if c = CHR 0x5C then [CHR 0x5C, CHR 0x5C]
      else if c = CHR 0x08 then [CHR 0x5C, CHR ''b'']
      else if c = CHR 0x09 then [CHR 0x5C, CHR ''t'']
      else if c = CHR 0x0A then [CHR 0x5C, CHR ''n'']
      else if c = CHR 0x0C then [CHR 0x5C, CHR ''f'']
      else if c = CHR 0x0D then [CHR 0x5C, CHR ''r'']
      else if (of_char c :: nat) < 32
        then [CHR 0x5C, CHR ''u'', CHR ''0'', CHR ''0'',
              hexDigit ((of_char c :: nat) div 16), hexDigit (of_char c)]
      else [c])"

definition quoteJSONString :: "string \<Rightarrow> string" where
  "quoteJSONString s = [CHR 0x22] @ concat (map quoteChar s) @ [CHR 0x22]"

function serializeJSONProperty ::
    "(rat \<Rightarrow> string) \<Rightarrow> heap \<Rightarrow> addr list \<Rightarrow> jsval \<Rightarrow> error + string option"
  and serializeJSONObject ::
    "(rat \<Rightarrow> string) \<Rightarrow> heap \<Rightarrow> addr list \<Rightarrow> properties \<Rightarrow> error + string list"
where
  "serializeJSONProperty fmt h stack JSUndefined = Inr None"
| "serializeJSONProperty fmt h stack JSNull = Inr (Some ''null'')"
| "serializeJSONProperty fmt h stack (JSBoolean b) =
     Inr (Some (if b then ''true'' else ''false''))"
| "serializeJSONProperty fmt h stack (JSNumber x) =
     Inr (Some (case x of Finite q \<Rightarrow> numberToString fmt x | _ \<Rightarrow> ''null''))"
| "serializeJSONProperty fmt h stack (JSString s) = Inr (Some (quoteJSONString s))"
| "serializeJSONProperty fmt h stack (JSObject a) =
     (if a \<in> set stack then Inl (TypeError ''Converting circular structure to JSON'')
      else (case serializeJSONObject fmt h (a # stack) (ownProperties h a) of
              Inl e \<Rightarrow> Inl e
            | Inr partial \<Rightarrow> Inr (Some (''{'' @ join '','' partial @ ''}''))))"
| "serializeJSONObject fmt h stack [] = Inr []"
| "serializeJSONObject fmt h stack ((key, v) # rest) =
     (case serializeJSONProperty fmt h stack v of
        Inl e \<Rightarrow> Inl e
      | Inr strP \<Rightarrow>
          (case serializeJSONObject fmt h stack rest of
             Inl e \<Rightarrow> Inl e
           | Inr partial \<Rightarrow>
               Inr ((case strP of
                       None \<Rightarrow> []
                     | Some str \<Rightarrow> [quoteJSONString key @ '':'' @ str]) @ partial)))"
  by pat_completeness auto

text \<open>
  The recursion ends because every object entered is new to the stack and the heap is
  finite.
\<close>

lemma unvisited_decreases:
  assumes "a \<notin> set stack" "a < length h"
  shows "card ({..<length h} - set (a # stack)) < card ({..<length h} - set stack)"
proof (rule psubset_card_mono)
  show "finite ({..<length h} - set stack)" by simp
  show "{..<length h} - set (a # stack) \<subset> {..<length h} - set stack"
    using assms by auto
qed

termination serializeJSONProperty
proof (relation "measures
    [\<lambda>x. case x of Inl (_, h, stack, _) \<Rightarrow> card ({..<length h} - set stack)
                  | Inr (_, h, stack, _) \<Rightarrow> card ({..<length h} - set stack),
     \<lambda>x. case x of Inl _ \<Rightarrow> 1
                  | Inr (_, _, _, ps) \<Rightarrow> (if ps = [] then 0 else Suc (length ps))]", goal_cases)
  case 1
  show ?case by simp
next
  case (2 fmt h stack a)
  show ?case
  proof (cases "a < length h")
    case True
    with 2 unvisited_decreases [of a stack h] show ?thesis by simp
  next
    case False
    then have "{..<length h} - set (a # stack) = {..<length h} - set stack" by auto
    with False show ?thesis by (simp add: ownProperties_def)
  qed
next
  case 3
  show ?case by simp
next
  case 4
  show ?case by simp
qed

definition JSON_stringify :: "(rat \<Rightarrow> string) \<Rightarrow> heap \<Rightarrow> jsval \<Rightarrow> error + string option" where
  "JSON_stringify fmt h v = serializeJSONProperty fmt h [] v"

section \<open>Matchers on events and HTML\<close>

subsection \<open>Comparing event details\<close>

text \<open>\<^verbatim>\<open>try { body } catch { handler }\<close>\<close>

definition tryCatch :: "(error + 'a) \<Rightarrow> (error \<Rightarrow> error + 'a) \<Rightarrow> error + 'a" where
  "tryCatch body handler = (case body of Inl e \<Rightarrow> handler e | Inr v \<Rightarrow> Inr v)"

text \<open>\<^verbatim>\<open>typeof v === 'object' && v !== null\<close> and \<^verbatim>\<open>Object.keys(v)\<close>.\<close>

definition isObject :: "jsval \<Rightarrow> bool" where
  "isObject v = (case v of JSObject _ \<Rightarrow> True | _ \<Rightarrow> False)"

definition objectKeys :: "heap \<Rightarrow> jsval \<Rightarrow> string list" where
  "objectKeys h v = (case v of JSObject a \<Rightarrow> map fst (ownProperties h a) | _ \<Rightarrow> [])"

text \<open>
  \<^verbatim>\<open>v[key]\<close> on an object: the value of its own property of that name; else, for a name
  that \<^verbatim>\<open>Object.prototype\<close> defines, what the prototype holds under it (a built-in
  function, or for \<^verbatim>\<open>__proto__\<close> the prototype itself), which is no value of the heap;
  else \<^verbatim>\<open>undefined\<close>. \<^verbatim>\<open>safeEquals\<close> reads properties of objects only.
\<close>

datatype propertyValue = Value jsval | Builtin string

definition objectPrototypeKeys :: "string list" where
  "objectPrototypeKeys =
     [''constructor'', ''__defineGetter__'', ''__defineSetter__'', ''hasOwnProperty'',
      ''__lookupGetter__'', ''__lookupSetter__'', ''isPrototypeOf'', ''propertyIsEnumerable'',
      ''toString'', ''valueOf'', ''__proto__'', ''toLocaleString'']"

definition getProperty :: "heap \<Rightarrow> jsval \<Rightarrow> string \<Rightarrow> propertyValue" where
  "getProperty h v key =
     (case v of
        JSObject a \<Rightarrow>
          (case map_of (ownProperties h a) key of
             Some x \<Rightarrow> Value x
           | None \<Rightarrow> if key \<in> set objectPrototypeKeys then Builtin key else Value JSUndefined)
      | _ \<Rightarrow> Value JSUndefined)"

text \<open>
  The strict comparison \<^verbatim>\<open>===\<close>: numbers are compared as numbers, objects by their
  address, and two built-in values are the same when they have the same name.
\<close>

definition strictEquals :: "jsval \<Rightarrow> jsval \<Rightarrow> bool" where
  "strictEquals a b =
     (case (a, b) of
        (JSNumber x, JSNumber y) \<Rightarrow> numberEquals x y
      | _ \<Rightarrow> a = b)"

definition strictEqualsProperty :: "propertyValue \<Rightarrow> propertyValue \<Rightarrow> bool" where
  "strictEqualsProperty a b =
     (case (a, b) of
        (Value x, Value y) \<Rightarrow> strictEquals x y
      | (Builtin k, Builtin l) \<Rightarrow> k = l
      | _ \<Rightarrow> False)"

text \<open>
  \<^verbatim>\<open>safeEquals\<close>: the comparison of the two JSON texts, and in the handler the
  comparison of the numbers of keys followed by the strict comparison of the values under
  the keys of \<open>a\<close>.
\<close>

definition safeEquals :: "(rat \<Rightarrow> string) \<Rightarrow> heap \<Rightarrow> jsval \<Rightarrow> jsval \<Rightarrow> error + bool" where
  "safeEquals fmt h a b =
     tryCatch
       (case JSON_stringify fmt h a of
          Inl e \<Rightarrow> Inl e
        | Inr strA \<Rightarrow>
            (case JSON_stringify fmt h b of
               Inl e \<Rightarrow> Inl e
             | Inr strB \<Rightarrow> Inr (strA = strB)))
       (\<lambda>_. if isObject a \<and> isObject b
            then (let keysA = objectKeys h a;
                      keysB = objectKeys h b
                  in if length keysA \<noteq> length keysB then Inr False
                     else Inr (list_all
                            (\<lambda>key. strictEqualsProperty (getProperty h a key) (getProperty h b key))
                            keysA))
            else Inr (strictEquals a b))"

text \<open>
  \<^verbatim>\<open>safeStringify\<close>, with \<^verbatim>\<open>String(value)\<close> in its handler, and the conversion a
  template literal applies to its result.
\<close>

definition toStringJS :: "(rat \<Rightarrow> string) \<Rightarrow> jsval \<Rightarrow> string" where
  "toStringJS fmt v =
     (case v of
        JSUndefined \<Rightarrow> ''undefined''
      | JSNull \<Rightarrow> ''null''
      | JSBoolean b \<Rightarrow> (if b then ''true'' else ''false'')
      | JSNumber x \<Rightarrow> numberToString fmt x
      | JSString s \<Rightarrow> s
      | JSObject _ \<Rightarrow> ''[object Object]'')"

definition safeStringify :: "(rat \<Rightarrow> string) \<Rightarrow> heap \<Rightarrow> jsval \<Rightarrow> string option" where
  "safeStringify fmt h v =
     (case JSON_stringify fmt h v of Inl _ \<Rightarrow> Some (toStringJS fmt v) | Inr str \<Rightarrow> str)"

definition interpolate :: "string option \<Rightarrow> string" where
  "interpolate str = (case str of None \<Rightarrow> ''undefined'' | Some t \<Rightarrow> t)"

subsection \<open>Event spies\<close>

text \<open>
  An event carries its type and its \<^verbatim>\<open>detail\<close>. The field \<open>length_spy\<close> is the member
  \<^verbatim>\<open>length\<close> of an \<^verbatim>\<open>EventSpy\<close>.
\<close>

record CustomEvent =
  eventType :: string
  detail :: jsval

record EventSpy =
  eventName :: string
  events :: "CustomEvent list"
  firstEvent :: "CustomEvent option"
  lastEvent :: "CustomEvent option"
  length_spy :: nat

text \<open>
  \<^verbatim>\<open>events[index]\<close>: the element at the index when the index is an integer within the
  list, and \<^verbatim>\<open>undefined\<close> for every other number (a fraction, \<^verbatim>\<open>NaN\<close>, an index
  beyond the list), as no other property of an array has a number for its name.
\<close>

definition arrayGet :: "'a list \<Rightarrow> number \<Rightarrow> 'a option" where
  "arrayGet xs index =
     (case index of
        Finite q \<Rightarrow>
          (if isInteger q \<and> 0 \<le> q \<and> nat \<lfloor>q\<rfloor> < length xs then Some (xs ! nat \<lfloor>q\<rfloor>)
           else None)
      | _ \<Rightarrow> None)"

text \<open>
  The two matchers on spies that the claims name. Their number arguments are any numbers.
  Reading \<^verbatim>\<open>detail\<close> of \<^verbatim>\<open>undefined\<close> throws.
\<close>

definition toHaveReceivedEventTimes ::
  "(rat \<Rightarrow> string) \<Rightarrow> EventSpy \<Rightarrow> number \<Rightarrow> string matcher_result" where
  \<open>toHaveReceivedEventTimes fmt received count' =
     (let ok = numberEquals (Finite (of_nat (length_spy received))) count'
      in \<lparr>pass = ok,
          message =
            (if ok
             then ''Expected event "'' @ eventName received
                    @ ''" not to have been received '' @ numberToString fmt count' @ '' times''
             else ''Expected event "'' @ eventName received
                    @ ''" to have been received '' @ numberToString fmt count'
                    @ '' times, but it was received ''
                    @ numberToString fmt (Finite (of_nat (length_spy received)))
                    @ '' times'')\<rparr>)\<close>

definition toHaveNthReceivedEventDetail ::
  "(rat \<Rightarrow> string) \<Rightarrow> heap \<Rightarrow> EventSpy \<Rightarrow> number \<Rightarrow> jsval
     \<Rightarrow> error + string matcher_result" where
  \<open>toHaveNthReceivedEventDetail fmt h received index expected =
     (if length_spy received = 0
      then Inr \<lparr>pass = False,
                message = ''Expected event "'' @ eventName received
                  @ ''" to have been received with detail, but no events were received''\<rparr>
      else if numberLessThan index (Finite 0)
                \<or> numberGreaterEqual index (Finite (of_nat (length_spy received)))
      then Inr \<lparr>pass = False,
                message = ''Expected event at index '' @ numberToString fmt index @ '', but only ''
                  @ numberToString fmt (Finite (of_nat (length_spy received)))
                  @ '' events were received''\<rparr>
      else (case arrayGet (events received) index of
              None \<Rightarrow> Inl (TypeError ''Cannot read properties of undefined (reading 'detail')'')
            | Some event \<Rightarrow>
                (case safeEquals fmt h (detail event) expected of
                   Inl e \<Rightarrow> Inl e
                 | Inr ok \<Rightarrow>
                     Inr \<lparr>pass = ok,
                          message =
                            (if ok
                             then ''Expected event at index '' @ numberToString fmt index
                                    @ '' detail not to equal ''
                                    @ interpolate (safeStringify fmt h expected)
                             else ''Expected event at index '' @ numberToString fmt index
                                    @ '' detail to equal ''
                                    @ interpolate (safeStringify fmt h expected) @ '', but got ''
                                    @ interpolate (safeStringify fmt h (detail event)))\<rparr>)))\<close>

text \<open>
  The state behind \<^verbatim>\<open>spyOnEvent\<close>: the spy objects by address, the \<^verbatim>\<open>WeakMap\<close>
  \<^verbatim>\<open>eventSpies\<close> from a container to its spies, and the listeners that
  \<^verbatim>\<open>addEventListener\<close> has put on the rendered element, each with the event name and the
  spy its closure writes to. A render result is identified by a number that stands for its
  container and its element.
\<close>

type_synonym target = nat

record registry =
  spyStore :: "EventSpy list"
  eventSpies :: "target \<Rightarrow> addr list option"
  listeners :: "target \<Rightarrow> (string \<times> addr) list"

text \<open>The body of the listener closure, on the spy it has captured.\<close>

definition listener :: "EventSpy \<Rightarrow> CustomEvent \<Rightarrow> EventSpy" where
  "listener spy customEvent =
     (let spy = spy\<lparr>events := events spy @ [customEvent]\<rparr>;
          spy = spy\<lparr>length_spy := length (events spy)\<rparr>;
          spy = spy\<lparr>lastEvent := Some customEvent\<rparr>
      in if length_spy spy = 1 then spy\<lparr>firstEvent := Some customEvent\<rparr> else spy)"

text \<open>
  \<^verbatim>\<open>spyOnEvent\<close> returns the address of a spy, or nothing where the source returns
  \<^verbatim>\<open>undefined\<close> (the result of \<^verbatim>\<open>find\<close> when no spy of the container has the name).
\<close>

definition spyOnEvent :: "target \<Rightarrow> string \<Rightarrow> registry \<Rightarrow> addr option \<times> registry" where
  "spyOnEvent container evName s =
     (case eventSpies s container of
        Some spies \<Rightarrow> (find (\<lambda>a. eventName (spyStore s ! a) = evName) spies, s)
      | None \<Rightarrow>
          (let a = length (spyStore s);
               spy = \<lparr>eventName = evName, events = [], firstEvent = None, lastEvent = None,
                      length_spy = 0\<rparr>;
               s = s\<lparr>spyStore := spyStore s @ [spy]\<rparr>;
               s = s\<lparr>listeners := (listeners s)(container := listeners s container @ [(evName, a)])\<rparr>;
               spiesForElement = (case eventSpies s container of None \<Rightarrow> [] | Some l \<Rightarrow> l);
               s = s\<lparr>eventSpies := (eventSpies s)(container \<mapsto> spiesForElement @ [a])\<rparr>
           in (Some a, s)))"

text \<open>
  Dispatching an event on the element runs the listeners registered for its type, in the
  order of their registration.
\<close>

definition dispatchEvent :: "target \<Rightarrow> CustomEvent \<Rightarrow> registry \<Rightarrow> registry" where
  "dispatchEvent element ev s =
     s\<lparr>spyStore :=
         foldl (\<lambda>store (evName, a).
                  if evName = eventType ev then store[a := listener (store ! a) ev] else store)
           (spyStore s) (listeners s element)\<rparr>"

definition initialRegistry :: registry where
  "initialRegistry = \<lparr>spyStore = [], eventSpies = (\<lambda>_. None), listeners = (\<lambda>_. [])\<rparr>"

subsection \<open>Properties of the comparison\<close>

text \<open>
  In this model of values \<^verbatim>\<open>safeEquals\<close> never throws, and when both values serialize
  it compares their JSON texts.
\<close>

lemma safeEquals_returns: "\<exists>ok. safeEquals fmt h a b = Inr ok"
  by (auto simp: safeEquals_def tryCatch_def Let_def split: sum.splits)

lemma safeEquals_serializable:
  "JSON_stringify fmt h a = Inr strA \<Longrightarrow> JSON_stringify fmt h b = Inr strB
     \<Longrightarrow> safeEquals fmt h a b = Inr (strA = strB)"
  by (simp add: safeEquals_def tryCatch_def)

text \<open>
  Claim C8. The claim says that the fallback compares the key sets and the values under
  each key. The source compares only the numbers of keys, and reads a missing key as
  \<^verbatim>\<open>undefined\<close>. Below, object 0 is \<^verbatim>\<open>{self: <object 0>, x: undefined}\<close> and object 1
  is \<^verbatim>\<open>{self: <object 0>, y: undefined}\<close>: serializing object 0 throws, the key lists
  differ, and \<^verbatim>\<open>safeEquals\<close> returns \<^verbatim>\<open>true\<close>.
\<close>

theorem safeEquals_shallow_fallback_key_sets:
  "JSON_stringify fmt
     [[(''self'', JSObject 0), (''x'', JSUndefined)], [(''self'', JSObject 0), (''y'', JSUndefined)]]
     (JSObject 0)
   = Inl (TypeError ''Converting circular structure to JSON'')
   \<and> safeEquals fmt
       [[(''self'', JSObject 0), (''x'', JSUndefined)],
        [(''self'', JSObject 0), (''y'', JSUndefined)]]
       (JSObject 0) (JSObject 1)
     = Inr True
   \<and> objectKeys
       [[(''self'', JSObject 0), (''x'', JSUndefined)],
        [(''self'', JSObject 0), (''y'', JSUndefined)]] (JSObject 0) = [''self'', ''x'']
   \<and> objectKeys
       [[(''self'', JSObject 0), (''x'', JSUndefined)],
        [(''self'', JSObject 0), (''y'', JSUndefined)]] (JSObject 1) = [''self'', ''y'']"
  by (simp add: safeEquals_def tryCatch_def JSON_stringify_def ownProperties_def isObject_def
      objectKeys_def getProperty_def objectPrototypeKeys_def strictEqualsProperty_def
      strictEquals_def)

subsection \<open>Creating spies\<close>

text \<open>
  Claim C2. On a container that already has a spy, \<^verbatim>\<open>spyOnEvent\<close> returns at once
  with the result of \<^verbatim>\<open>find\<close>. For an event name without a spy that result is
  \<^verbatim>\<open>undefined\<close>: no spy is made and no listener is added.
\<close>

theorem spyOnEvent_other_name_undefined:
  "fst (spyOnEvent 0 ''buttonClick'' initialRegistry) = Some 0
   \<and> fst (spyOnEvent 0 ''valueChange'' (snd (spyOnEvent 0 ''buttonClick'' initialRegistry)))
     = None
   \<and> listeners (snd (spyOnEvent 0 ''valueChange''
                       (snd (spyOnEvent 0 ''buttonClick'' initialRegistry)))) 0
     = [(''buttonClick'', 0)]"
  by (simp add: spyOnEvent_def initialRegistry_def Let_def)


subsection \<open>Recording events\<close>

lemma listener_fields:
  "events (listener spy e) = events spy @ [e]"
  "length_spy (listener spy e) = Suc (length (events spy))"
  "lastEvent (listener spy e) = Some e"
  "firstEvent (listener spy e) = (if events spy = [] then Some e else firstEvent spy)"
  "eventName (listener spy e) = eventName spy"
  by (auto simp: listener_def Let_def)

lemma foldl_listener:
  "events (foldl listener spy es) = events spy @ es"
  "es \<noteq> [] \<Longrightarrow> length_spy (foldl listener spy es) = length (events spy @ es)"
  "es \<noteq> [] \<Longrightarrow> lastEvent (foldl listener spy es) = Some (last es)"
  "es \<noteq> [] \<Longrightarrow> events spy = [] \<Longrightarrow> firstEvent (foldl listener spy es) = Some (hd es)"
proof (induction es arbitrary: spy rule: rev_induct)
  case Nil
  { case 1 show ?case by simp }
  { case 2 then show ?case by simp }
  { case 3 then show ?case by simp }
  { case 4 then show ?case by simp }
next
  case (snoc e es)
  { case 1 show ?case by (simp add: listener_fields snoc.IH(1)) }
  { case 2 show ?case by (simp add: listener_fields snoc.IH(1)) }
  { case 3 show ?case by (simp add: listener_fields) }
  { case 4
    show ?case
    proof (cases "es = []")
      case True
      with 4 show ?thesis by (simp add: listener_fields)
    next
      case False
      with 4 snoc.IH(4) [of spy] show ?thesis
        by (simp add: listener_fields snoc.IH(1))
    qed }
qed

definition deliver :: "CustomEvent \<Rightarrow> EventSpy list \<Rightarrow> string \<times> addr \<Rightarrow> EventSpy list" where
  "deliver ev store l =
     (case l of (evName, a) \<Rightarrow>
        if evName = eventType ev then store[a := listener (store ! a) ev] else store)"

lemma dispatchEvent_deliver:
  "dispatchEvent element ev s =
     s\<lparr>spyStore := foldl (deliver ev) (spyStore s) (listeners s element)\<rparr>"
proof -
  have "(\<lambda>store (evName, a).
           if evName = eventType ev then store[a := listener (store ! a) ev] else store)
        = deliver ev"
    by (auto simp: deliver_def fun_eq_iff)
  then show ?thesis by (simp add: dispatchEvent_def)
qed

lemma length_deliver: "length (foldl (deliver ev) store ls) = length store"
  by (induction ls arbitrary: store) (auto simp: deliver_def)

lemma deliver_elsewhere:
  "a \<notin> snd ` set ls \<Longrightarrow> foldl (deliver ev) store ls ! a = store ! a"
  by (induction ls arbitrary: store) (auto simp: deliver_def)

lemma deliver_own:
  assumes "a \<notin> snd ` set old" "a < length store" "eventType ev = evName"
  shows "foldl (deliver ev) store (old @ [(evName, a)]) ! a = listener (store ! a) ev"
  using assms by (simp add: deliver_def deliver_elsewhere length_deliver)

lemma dispatch_sequence:
  assumes "listeners s element = old @ [(evName, a)]" "a \<notin> snd ` set old"
    and "a < length (spyStore s)" "\<forall>e\<in>set es. eventType e = evName"
  shows "spyStore (foldl (\<lambda>s e. dispatchEvent element e s) s es) ! a
           = foldl listener (spyStore s ! a) es"
  using assms
proof (induction es arbitrary: s)
  case Nil
  show ?case by simp
next
  case (Cons e es)
  let ?s = "dispatchEvent element e s"
  have l: "listeners ?s element = old @ [(evName, a)]"
    using Cons.prems(1) by (simp add: dispatchEvent_deliver)
  have n: "a < length (spyStore ?s)"
    using Cons.prems(3) by (simp add: dispatchEvent_deliver length_deliver)
  have here: "spyStore ?s ! a = listener (spyStore s ! a) e"
    using Cons.prems deliver_own [of a old "spyStore s" e evName]
    by (simp add: dispatchEvent_deliver)
  from Cons.IH [OF l Cons.prems(2) n] Cons.prems(4) here show ?case by simp
qed

lemma spyOnEvent_fresh:
  assumes "eventSpies s0 container = None"
  shows "spyOnEvent container evName s0 =
           (Some (length (spyStore s0)),
            s0\<lparr>spyStore := spyStore s0 @
                   [\<lparr>eventName = evName, events = [], firstEvent = None, lastEvent = None,
                     length_spy = 0\<rparr>],
                listeners := (listeners s0)
                   (container := listeners s0 container @ [(evName, length (spyStore s0))]),
                eventSpies := (eventSpies s0)(container \<mapsto> [length (spyStore s0)])\<rparr>)"
  using assms by (simp add: spyOnEvent_def Let_def)

text \<open>
  A second call with the name of the spy just created returns that spy and changes
  nothing: no second spy, no second listener.
\<close>

lemma spyOnEvent_same_name:
  assumes "eventSpies s0 container = None" and "spyOnEvent container evName s0 = (r, s1)"
  shows "spyOnEvent container evName s1 = (r, s1)"
proof -
  from assms have r: "r = Some (length (spyStore s0))"
    and spies: "eventSpies s1 container = Some [length (spyStore s0)]"
    and name: "eventName (spyStore s1 ! length (spyStore s0)) = evName"
    by (auto simp: spyOnEvent_fresh)
  then show ?thesis by (simp add: spyOnEvent_def)
qed

lemma isInteger_of_nat [simp]: "isInteger (of_nat n)"
  by (simp add: isInteger_def)

lemma isInteger_of_int [simp]: "isInteger (of_int i)"
  by (simp add: isInteger_def)

lemma isInteger_numeral [simp]: "isInteger (numeral k)" "isInteger 0" "isInteger 1"
  by (simp_all add: isInteger_def)

lemma isInteger_floor: "isInteger q \<Longrightarrow> q = of_int \<lfloor>q\<rfloor>"
  unfolding isInteger_def by (rule sym)

lemma half_not_integer [simp]: "\<not> isInteger (1 / 2)"
proof
  assume "isInteger (1 / 2)"
  then obtain n :: int where "(1::rat) / 2 = of_int n"
    unfolding isInteger_def of_int_floor_cancel by blast
  then have "(1::rat) = of_int (2 * n)" by simp
  then have "1 = 2 * n" using of_int_eq_1_iff by metis
  then show False by presburger
qed

lemma arrayGet_of_nat: "i < length xs \<Longrightarrow> arrayGet xs (Finite (of_nat i)) = Some (xs ! i)"
  by (simp add: arrayGet_def)

lemma toHaveNth_in_range:
  assumes "length_spy spy = length (events spy)" "i < length (events spy)"
  shows "map_sum id pass (toHaveNthReceivedEventDetail fmt h spy (Finite (of_nat i)) d)
           = safeEquals fmt h (detail (events spy ! i)) d"
proof -
  obtain ok where ok: "safeEquals fmt h (detail (events spy ! i)) d = Inr ok"
    using safeEquals_returns by blast
  moreover from assms have "events spy \<noteq> []" by auto
  ultimately show ?thesis
    using assms
    by (simp add: toHaveNthReceivedEventDetail_def arrayGet_of_nat numberGreaterEqual_def)
qed

text \<open>
  Claim C7. Let \<^verbatim>\<open>spyOnEvent\<close> create a spy for an event name on a container without
  spies, and let a non-empty sequence of events of that name be dispatched. Then the spy
  holds exactly these events in the order of dispatch, \<^verbatim>\<open>length\<close> is their number,
  \<^verbatim>\<open>firstEvent\<close> is the first of them and a further event would not change it,
  \<^verbatim>\<open>lastEvent\<close> is the last of them, \<^verbatim>\<open>toHaveReceivedEventTimes(k)\<close> passes exactly for
  the number \<open>k\<close> that is the number of events, and \<^verbatim>\<open>toHaveNthReceivedEventDetail(i, d)\<close> gives what
  \<^verbatim>\<open>safeEquals\<close> gives on \<open>d\<close> and the detail of the event at position \<open>i\<close>, counted
  from 0. As the statement holds for every such sequence, it holds after each dispatch.
\<close>

theorem event_spy_records_in_order:
  assumes "eventSpies s0 container = None"
    and "\<forall>l\<in>set (listeners s0 container). snd l < length (spyStore s0)"
    and "spyOnEvent container evName s0 = (r, s1)"
    and "es \<noteq> []" and "\<forall>e\<in>set es. eventType e = evName"
  shows "\<exists>a spy. r = Some a
           \<and> spy = spyStore (foldl (\<lambda>s e. dispatchEvent container e s) s1 es) ! a
           \<and> events spy = es
           \<and> length_spy spy = length es
           \<and> firstEvent spy = Some (hd es)
           \<and> lastEvent spy = Some (last es)
           \<and> (\<forall>e. firstEvent (listener spy e) = firstEvent spy)
           \<and> (\<forall>k. pass (toHaveReceivedEventTimes fmt spy k) = (k = Finite (of_nat (length es))))
           \<and> (\<forall>i<length es. \<forall>h d.
                 map_sum id pass (toHaveNthReceivedEventDetail fmt h spy (Finite (of_nat i)) d)
                   = safeEquals fmt h (detail (es ! i)) d)"
proof -
  let ?a = "length (spyStore s0)"
  let ?new = "\<lparr>eventName = evName, events = [], firstEvent = None, lastEvent = None,
                 length_spy = 0\<rparr>"
  from assms(1,3) have r: "r = Some ?a"
    and s1: "s1 = s0\<lparr>spyStore := spyStore s0 @ [?new],
                listeners := (listeners s0)
                   (container := listeners s0 container @ [(evName, ?a)]),
                eventSpies := (eventSpies s0)(container \<mapsto> [?a])\<rparr>"
    by (simp_all add: spyOnEvent_fresh)
  have l: "listeners s1 container = listeners s0 container @ [(evName, ?a)]"
    by (simp add: s1)
  have fresh: "?a \<notin> snd ` set (listeners s0 container)"
    using assms(2) by auto
  have n: "?a < length (spyStore s1)" by (simp add: s1)
  let ?spy = "spyStore (foldl (\<lambda>s e. dispatchEvent container e s) s1 es) ! ?a"
  have base: "spyStore s1 ! ?a = ?new"
    unfolding s1 by simp
  have spy: "?spy = foldl listener ?new es"
    using dispatch_sequence [OF l fresh n assms(5)] unfolding base .
  have ev: "events ?spy = es" by (simp add: spy foldl_listener(1))
  have len: "length_spy ?spy = length es"
    using assms(4) by (simp add: spy foldl_listener(2))
  have first: "firstEvent ?spy = Some (hd es)"
    using assms(4) by (simp add: spy foldl_listener(4))
  have last: "lastEvent ?spy = Some (last es)"
    using assms(4) by (simp add: spy foldl_listener(3))
  have keep: "\<forall>e. firstEvent (listener ?spy e) = firstEvent ?spy"
    using assms(4) ev by (simp add: listener_fields)
  have times: "\<forall>k. pass (toHaveReceivedEventTimes fmt ?spy k) = (k = Finite (of_nat (length es)))"
    using len by (auto simp: toHaveReceivedEventTimes_def Let_def numberEquals_def)
  have nth: "\<forall>i<length es. \<forall>h d.
               map_sum id pass (toHaveNthReceivedEventDetail fmt h ?spy (Finite (of_nat i)) d)
                 = safeEquals fmt h (detail (es ! i)) d"
    using toHaveNth_in_range [of ?spy] ev len by simp
  from r ev len first last keep times nth show ?thesis by blast
qed

subsection \<open>The index of the nth event\<close>

text \<open>
  The index is a number. For every number, when the spy has no events, or the index is
  below 0, or the index is not below \<^verbatim>\<open>length\<close>, the matcher returns a failed result
  with a message, and the result is the same whatever the list \<^verbatim>\<open>events\<close> holds: the
  list is not read. On a spy whose \<^verbatim>\<open>length\<close> is the length of its list, as the listener
  keeps it, the matcher returns a result for every index that is an integer; it throws
  exactly when the spy has events and the index is \<^verbatim>\<open>NaN\<close> or a fraction between 0 and
  \<^verbatim>\<open>length\<close>, which pass both tests and name no element of the list.
\<close>

lemma toHaveNthReceivedEventDetail_total_on_integers:
  "(length_spy spy = 0 \<or> numberLessThan index (Finite 0)
      \<or> numberGreaterEqual index (Finite (of_nat (length_spy spy))) \<longrightarrow>
      (\<exists>msg. toHaveNthReceivedEventDetail fmt h spy index d
                = Inr \<lparr>pass = False, message = msg\<rparr>)
      \<and> toHaveNthReceivedEventDetail fmt h (spy\<lparr>events := es\<rparr>) index d
          = toHaveNthReceivedEventDetail fmt h spy index d)
   \<and> (length_spy spy = length (events spy) \<longrightarrow>
      (\<forall>i. \<exists>res. toHaveNthReceivedEventDetail fmt h spy (Finite (of_int i)) d = Inr res)
      \<and> ((\<exists>e. toHaveNthReceivedEventDetail fmt h spy index d = Inl e)
           = (events spy \<noteq> []
              \<and> (index = NaN
                 \<or> (\<exists>q. index = Finite q \<and> 0 < q \<and> q < of_nat (length (events spy))
                         \<and> \<not> isInteger q)))))"
proof -
  let ?n = "length (events spy)"
  have guard: "(\<exists>msg. toHaveNthReceivedEventDetail fmt h spy index d
                  = Inr \<lparr>pass = False, message = msg\<rparr>)
      \<and> toHaveNthReceivedEventDetail fmt h (spy\<lparr>events := es\<rparr>) index d
          = toHaveNthReceivedEventDetail fmt h spy index d"
    if "length_spy spy = 0 \<or> numberLessThan index (Finite 0)
          \<or> numberGreaterEqual index (Finite (of_nat (length_spy spy)))"
    using that by (auto simp: toHaveNthReceivedEventDetail_def)
  have throws: "(\<exists>e. toHaveNthReceivedEventDetail fmt h spy x d = Inl e)
                = (events spy \<noteq> []
                   \<and> (x = NaN
                      \<or> (\<exists>q. x = Finite q \<and> 0 < q \<and> q < of_nat ?n \<and> \<not> isInteger q)))"
    if len: "length_spy spy = ?n" for x
  proof (cases "events spy = []")
    case True
    with len show ?thesis by (simp add: toHaveNthReceivedEventDetail_def)
  next
    case False
    then have pos: "length_spy spy \<noteq> 0" using len by simp
    show ?thesis
    proof (cases x)
      case (Finite q)
      show ?thesis
      proof (cases "0 \<le> q \<and> q < of_nat ?n")
        case inside: True
        show ?thesis
        proof (cases "isInteger q")
          case True
          then have q: "q = of_int \<lfloor>q\<rfloor>" by (rule isInteger_floor)
          from inside have "\<lfloor>q\<rfloor> < int ?n" by (simp add: floor_less_iff)
          moreover from inside have "0 \<le> \<lfloor>q\<rfloor>" by simp
          ultimately have "nat \<lfloor>q\<rfloor> < ?n" by linarith
          then have get: "arrayGet (events spy) x = Some (events spy ! nat \<lfloor>q\<rfloor>)"
            using True inside by (simp add: arrayGet_def Finite)
          obtain ok where "safeEquals fmt h (detail (events spy ! nat \<lfloor>q\<rfloor>)) d = Inr ok"
            using safeEquals_returns by blast
          with get True pos show ?thesis
            by (simp add: toHaveNthReceivedEventDetail_def Finite)
        next
          case False
          then have get: "arrayGet (events spy) x = None" by (simp add: arrayGet_def Finite)
          from False have "q \<noteq> 0" by auto
          with inside have "0 < q" by simp
          with get False inside pos len \<open>events spy \<noteq> []\<close> show ?thesis
            by (simp add: toHaveNthReceivedEventDetail_def Finite numberGreaterEqual_def)
        qed
      next
        case False
        with pos len show ?thesis
          by (auto simp: toHaveNthReceivedEventDetail_def Finite numberGreaterEqual_def)
      qed
    next
      case NaN
      with pos \<open>events spy \<noteq> []\<close> show ?thesis
        by (simp add: toHaveNthReceivedEventDetail_def numberGreaterEqual_def arrayGet_def)
    next
      case PosInfinity
      with pos show ?thesis
        by (simp add: toHaveNthReceivedEventDetail_def numberGreaterEqual_def)
    next
      case NegInfinity
      with pos show ?thesis
        by (simp add: toHaveNthReceivedEventDetail_def numberGreaterEqual_def)
    qed
  qed
  have total: "\<exists>res. toHaveNthReceivedEventDetail fmt h spy (Finite (of_int i)) d = Inr res"
    if len: "length_spy spy = ?n" for i
  proof -
    have "\<not> (\<exists>e. toHaveNthReceivedEventDetail fmt h spy (Finite (of_int i)) d = Inl e)"
      unfolding throws [OF len] by simp
    then show ?thesis
      by (cases "toHaveNthReceivedEventDetail fmt h spy (Finite (of_int i)) d") auto
  qed
  from guard throws total show ?thesis by blast
qed

text \<open>
  Claim C10. The claim says that the matcher is total over its index: that it returns a
  failed result instead of throwing, and reads the list only when the index is between 0
  and \<^verbatim>\<open>length\<close>. The two tests of the source catch the indices below 0 and those not
  below \<^verbatim>\<open>length\<close>, and miss the numbers that are no positions of a list. On a spy with
  one event the index \<^verbatim>\<open>NaN\<close> is neither below 0 nor at least 1, and the index
  \<^verbatim>\<open>0.5\<close> is between 0 and 1; for both, \<^verbatim>\<open>events[index]\<close> is \<^verbatim>\<open>undefined\<close> and the
  matcher throws.
\<close>

theorem toHaveNthReceivedEventDetail_throws_on_NaN:
  "\<not> numberLessThan NaN (Finite 0)
   \<and> \<not> numberGreaterEqual NaN (Finite 1)
   \<and> toHaveNthReceivedEventDetail fmt []
     \<lparr>eventName = ''buttonClick'',
      events = [\<lparr>eventType = ''buttonClick'', detail = JSNumber (Finite 7)\<rparr>],
      firstEvent = Some \<lparr>eventType = ''buttonClick'', detail = JSNumber (Finite 7)\<rparr>,
      lastEvent = Some \<lparr>eventType = ''buttonClick'', detail = JSNumber (Finite 7)\<rparr>,
      length_spy = 1\<rparr> NaN (JSNumber (Finite 7))
   = Inl (TypeError ''Cannot read properties of undefined (reading 'detail')'')
   \<and> toHaveNthReceivedEventDetail fmt []
     \<lparr>eventName = ''buttonClick'',
      events = [\<lparr>eventType = ''buttonClick'', detail = JSNumber (Finite 7)\<rparr>],
      firstEvent = Some \<lparr>eventType = ''buttonClick'', detail = JSNumber (Finite 7)\<rparr>,
      lastEvent = Some \<lparr>eventType = ''buttonClick'', detail = JSNumber (Finite 7)\<rparr>,
      length_spy = 1\<rparr> (Finite (1 / 2)) (JSNumber (Finite 7))
   = Inl (TypeError ''Cannot read properties of undefined (reading 'detail')'')"
  by (simp add: toHaveNthReceivedEventDetail_def numberGreaterEqual_def arrayGet_def)

subsection \<open>Examples for the spies\<close>

text \<open>
  Three events with the details \<^verbatim>\<open>{n:1}\<close>, \<^verbatim>\<open>{n:2}\<close> and \<^verbatim>\<open>{n:3}\<close> (objects 0, 1
  and 2 of the heap; object 3 is another \<^verbatim>\<open>{n:2}\<close>).
\<close>

theorem event_spy_records_in_order_witness:
  "(let es = [\<lparr>eventType = ''buttonClick'', detail = JSObject 0\<rparr>,
              \<lparr>eventType = ''buttonClick'', detail = JSObject 1\<rparr>,
              \<lparr>eventType = ''buttonClick'', detail = JSObject 2\<rparr>];
        spy = spyStore (foldl (\<lambda>s e. dispatchEvent 0 e s)
                          (snd (spyOnEvent 0 ''buttonClick'' initialRegistry)) es) ! 0
    in fst (spyOnEvent 0 ''buttonClick'' initialRegistry) = Some 0
       \<and> events spy = es
       \<and> firstEvent spy = Some \<lparr>eventType = ''buttonClick'', detail = JSObject 0\<rparr>
       \<and> lastEvent spy = Some \<lparr>eventType = ''buttonClick'', detail = JSObject 2\<rparr>
       \<and> pass (toHaveReceivedEventTimes (\<lambda>_. []) spy (Finite 3))
       \<and> \<not> pass (toHaveReceivedEventTimes (\<lambda>_. []) spy (Finite 2))
       \<and> map_sum id pass
           (toHaveNthReceivedEventDetail (\<lambda>_. [])
              [[(''n'', JSNumber (Finite 1))], [(''n'', JSNumber (Finite 2))], [(''n'', JSNumber (Finite 3))],
               [(''n'', JSNumber (Finite 2))]]
              spy (Finite 1) (JSObject 3))
         = Inr True)"
proof -
  let ?es = "[\<lparr>eventType = ''buttonClick'', detail = JSObject 0\<rparr>,
              \<lparr>eventType = ''buttonClick'', detail = JSObject 1\<rparr>,
              \<lparr>eventType = ''buttonClick'', detail = JSObject 2\<rparr>]"
  let ?h = "[[(''n'', JSNumber (Finite 1))], [(''n'', JSNumber (Finite 2))], [(''n'', JSNumber (Finite 3))],
             [(''n'', JSNumber (Finite 2))]]"
  have 1: "eventSpies initialRegistry 0 = None" by (simp add: initialRegistry_def)
  have 2: "\<forall>l\<in>set (listeners initialRegistry 0). snd l < length (spyStore initialRegistry)"
    by (simp add: initialRegistry_def)
  have 3: "spyOnEvent 0 ''buttonClick'' initialRegistry
             = (fst (spyOnEvent 0 ''buttonClick'' initialRegistry),
                snd (spyOnEvent 0 ''buttonClick'' initialRegistry))"
    by simp
  have 4: "?es \<noteq> []" by simp
  have 5: "\<forall>e\<in>set ?es. eventType e = ''buttonClick''" by simp
  have r: "fst (spyOnEvent 0 ''buttonClick'' initialRegistry) = Some 0"
    by (simp add: spyOnEvent_def initialRegistry_def Let_def)
  let ?fmt = "(\<lambda>_. []) :: rat \<Rightarrow> string"
  have eq: "safeEquals ?fmt ?h (JSObject 1) (JSObject 3) = Inr True"
    by (simp add: safeEquals_def tryCatch_def JSON_stringify_def ownProperties_def)
  from event_spy_records_in_order [OF 1 2 3 4 5, of ?fmt] r
  obtain spy where spy:
      "spy = spyStore (foldl (\<lambda>s e. dispatchEvent 0 e s)
                         (snd (spyOnEvent 0 ''buttonClick'' initialRegistry)) ?es) ! 0"
    and f: "events spy = ?es" "firstEvent spy = Some (hd ?es)" "lastEvent spy = Some (last ?es)"
      "\<forall>k. pass (toHaveReceivedEventTimes ?fmt spy k) = (k = Finite (of_nat (length ?es)))"
      "\<forall>i<length ?es. \<forall>h d.
          map_sum id pass (toHaveNthReceivedEventDetail ?fmt h spy (Finite (of_nat i)) d)
            = safeEquals ?fmt h (detail (?es ! i)) d"
    by auto
  have "(1::nat) < length ?es" by simp
  from f(5) [rule_format, OF this, of ?h "JSObject 3"]
  have "map_sum id pass (toHaveNthReceivedEventDetail ?fmt ?h spy (Finite 1) (JSObject 3))
          = safeEquals ?fmt ?h (JSObject 1) (JSObject 3)"
    by simp
  with eq have nth:
    "map_sum id pass (toHaveNthReceivedEventDetail ?fmt ?h spy (Finite 1) (JSObject 3)) = Inr True"
    by simp
  from f(4) have t3: "pass (toHaveReceivedEventTimes ?fmt spy (Finite 3))"
    and t2: "\<not> pass (toHaveReceivedEventTimes ?fmt spy (Finite 2))" by simp_all
  show ?thesis
    unfolding Let_def using r f(1,2,3) t3 t2 nth unfolding spy by simp
qed

text \<open>
  On a spy with one event: the index 5 is not below \<^verbatim>\<open>length\<close>, the index 0 names the
  event, and the index \<^verbatim>\<open>0.5\<close> names nothing.
\<close>

lemma toHaveNthReceivedEventDetail_examples:
  "toHaveNthReceivedEventDetail (\<lambda>_. []) []
     \<lparr>eventName = ''buttonClick'',
      events = [\<lparr>eventType = ''buttonClick'', detail = JSNumber (Finite 7)\<rparr>],
      firstEvent = Some \<lparr>eventType = ''buttonClick'', detail = JSNumber (Finite 7)\<rparr>,
      lastEvent = Some \<lparr>eventType = ''buttonClick'', detail = JSNumber (Finite 7)\<rparr>,
      length_spy = 1\<rparr> (Finite 5) (JSNumber (Finite 7))
   = Inr \<lparr>pass = False,
          message = ''Expected event at index 5, but only 1 events were received''\<rparr>
   \<and> toHaveNthReceivedEventDetail (\<lambda>_. []) []
     \<lparr>eventName = ''buttonClick'',
      events = [\<lparr>eventType = ''buttonClick'', detail = JSNumber (Finite 7)\<rparr>],
      firstEvent = Some \<lparr>eventType = ''buttonClick'', detail = JSNumber (Finite 7)\<rparr>,
      lastEvent = Some \<lparr>eventType = ''buttonClick'', detail = JSNumber (Finite 7)\<rparr>,
      length_spy = 1\<rparr> (Finite 0) (JSNumber (Finite 7))
   = Inr \<lparr>pass = True, message = ''Expected event at index 0 detail not to equal 7''\<rparr>
   \<and> (\<exists>e. toHaveNthReceivedEventDetail (\<lambda>_. []) []
     \<lparr>eventName = ''buttonClick'',
      events = [\<lparr>eventType = ''buttonClick'', detail = JSNumber (Finite 7)\<rparr>],
      firstEvent = Some \<lparr>eventType = ''buttonClick'', detail = JSNumber (Finite 7)\<rparr>,
      lastEvent = Some \<lparr>eventType = ''buttonClick'', detail = JSNumber (Finite 7)\<rparr>,
      length_spy = 1\<rparr> (Finite (1 / 2)) (JSNumber (Finite 7)) = Inl e)"
  using
    toHaveNthReceivedEventDetail_total_on_integers
      [of "\<lparr>eventName = ''buttonClick'',
      events = [\<lparr>eventType = ''buttonClick'', detail = JSNumber (Finite 7)\<rparr>],
      firstEvent = Some \<lparr>eventType = ''buttonClick'', detail = JSNumber (Finite 7)\<rparr>,
      lastEvent = Some \<lparr>eventType = ''buttonClick'', detail = JSNumber (Finite 7)\<rparr>,
      length_spy = 1\<rparr>" "Finite 5" "\<lambda>_. []" "[]" "JSNumber (Finite 7)" "[]"]
    toHaveNthReceivedEventDetail_total_on_integers
      [of "\<lparr>eventName = ''buttonClick'',
      events = [\<lparr>eventType = ''buttonClick'', detail = JSNumber (Finite 7)\<rparr>],
      firstEvent = Some \<lparr>eventType = ''buttonClick'', detail = JSNumber (Finite 7)\<rparr>,
      lastEvent = Some \<lparr>eventType = ''buttonClick'', detail = JSNumber (Finite 7)\<rparr>,
      length_spy = 1\<rparr>" "Finite (1 / 2)" "\<lambda>_. []" "[]" "JSNumber (Finite 7)" "[]"]
  by (simp add: toHaveNthReceivedEventDetail_def showInt_def showNat.simps digitChar_def
      safeEquals_def tryCatch_def JSON_stringify_def safeStringify_def interpolate_def
      numberToString_def numberGreaterEqual_def arrayGet_def)

subsection \<open>The HTML matchers\<close>

text \<open>
  What the HTML matchers find out about the received value: whether it is \<^verbatim>\<open>null\<close> or
  \<^verbatim>\<open>undefined\<close>; whether its member \<^verbatim>\<open>then\<close> is a function; and whether it is a string,
  a node of type 11 (a fragment or a shadow root), a node of type 1, or anything else.
\<close>

datatype receivedContent =
  StringContent string
| FragmentContent "node list"
| ElementContent element
| OtherContent

datatype received =
  ReceivedNull
| ReceivedUndefined
| ReceivedValue (thenIsFunction: bool) (content: receivedContent)

text \<open>
  \<^verbatim>\<open>toEqualHtml\<close> and \<^verbatim>\<open>toEqualLightHtml\<close>. The pretty-printer is an argument, as it
  is for \<^const>\<open>serializeHtml\<close>; so is \<open>parseInnerHtml\<close>, which stands for the parser of
  the DOM environment followed by \<^verbatim>\<open>innerHTML || textContent || ''\<close>. An exception of
  \<^const>\<open>serializeHtml\<close> leaves the matcher; an exception of the pretty-printer in the
  message is what a call of the message gives.
\<close>

definition toEqualHtml ::
  "(string \<Rightarrow> error + string) \<Rightarrow> (string \<Rightarrow> string) \<Rightarrow> received \<Rightarrow> string
     \<Rightarrow> error + (error + string) matcher_result" where
  \<open>toEqualHtml prettify parseInnerHtml received expected =
     (case received of
        ReceivedNull \<Rightarrow> Inl (Error ''expect.toEqualHtml() received value is "null"'')
      | ReceivedUndefined \<Rightarrow>
          Inl (Error ''expect.toEqualHtml() received value is "undefined"'')
      | ReceivedValue thenable c \<Rightarrow>
          if thenable
          then Inl (TypeError
                 ''Element must be a resolved value, not a promise, before it can be tested'')
          else
            (case (case c of
                     StringContent str \<Rightarrow> Inr (parseInnerHtml str)
                   | FragmentContent children \<Rightarrow>
                       serializeHtml prettify (InputFragment children)
                         \<lparr>serializeShadowRoot = Some True, pretty = None,
                           excludeStyles = None\<rparr>
                   | ElementContent elem \<Rightarrow>
                       serializeHtml prettify (InputElement elem)
                         \<lparr>serializeShadowRoot = Some True, pretty = None,
                           excludeStyles = None\<rparr>
                   | OtherContent \<Rightarrow>
                       Inl (TypeError
                         ''expect.toEqualHtml() value should be an element, shadow root, or string''))
             of
               Inl e \<Rightarrow> Inl e
             | Inr receivedHtml \<Rightarrow>
                 (let expectedHtml = normalizeHtml (trim expected);
                      receivedHtml = normalizeHtml receivedHtml;
                      ok = (receivedHtml = expectedHtml)
                  in Inr \<lparr>pass = ok,
                          message =
                            (if ok
                             then (case prettify expectedHtml of
                                     Inl e \<Rightarrow> Inl e
                                   | Inr prettyExpected \<Rightarrow>
                                       Inr (''Expected HTML not to equal:'' @ [CHR 0x0A]
                                              @ prettyExpected))
                             else (case prettify expectedHtml of
                                     Inl e \<Rightarrow> Inl e
                                   | Inr prettyExpected \<Rightarrow>
                                       (case prettify receivedHtml of
                                          Inl e \<Rightarrow> Inl e
                                        | Inr prettyReceived \<Rightarrow>
                                            Inr (''Expected HTML to equal:'' @ [CHR 0x0A]
                                                   @ prettyExpected @ [CHR 0x0A, CHR 0x0A]
                                                   @ ''Received:'' @ [CHR 0x0A]
                                                   @ prettyReceived))))\<rparr>)))\<close>

definition toEqualLightHtml ::
  "(string \<Rightarrow> error + string) \<Rightarrow> (string \<Rightarrow> string) \<Rightarrow> received \<Rightarrow> string
     \<Rightarrow> error + (error + string) matcher_result" where
  \<open>toEqualLightHtml prettify parseInnerHtml received expected =
     (case received of
        ReceivedNull \<Rightarrow> Inl (Error ''expect.toEqualLightHtml() received value is "null"'')
      | ReceivedUndefined \<Rightarrow>
          Inl (Error ''expect.toEqualLightHtml() received value is "undefined"'')
      | ReceivedValue thenable c \<Rightarrow>
          if thenable
          then Inl (TypeError
                 ''Element must be a resolved value, not a promise, before it can be tested'')
          else
            (case (case c of
                     StringContent str \<Rightarrow> Inr (parseInnerHtml str)
                   | FragmentContent children \<Rightarrow>
                       serializeHtml prettify (InputFragment children)
                         \<lparr>serializeShadowRoot = Some False, pretty = None,
                           excludeStyles = None\<rparr>
                   | ElementContent elem \<Rightarrow>
                       serializeHtml prettify (InputElement elem)
                         \<lparr>serializeShadowRoot = Some False, pretty = None,
                           excludeStyles = None\<rparr>
                   | OtherContent \<Rightarrow>
                       Inl (TypeError
                         ''expect.toEqualLightHtml() value should be an element, shadow root, or string''))
             of
               Inl e \<Rightarrow> Inl e
             | Inr receivedHtml \<Rightarrow>
                 (let expectedHtml = normalizeHtml (trim expected);
                      receivedHtml = normalizeHtml receivedHtml;
                      ok = (receivedHtml = expectedHtml)
                  in Inr \<lparr>pass = ok,
                          message =
                            (if ok
                             then (case prettify expectedHtml of
                                     Inl e \<Rightarrow> Inl e
                                   | Inr prettyExpected \<Rightarrow>
                                       Inr (''Expected Light DOM HTML not to equal:'' @ [CHR 0x0A]
                                              @ prettyExpected))
                             else (case prettify expectedHtml of
                                     Inl e \<Rightarrow> Inl e
                                   | Inr prettyExpected \<Rightarrow>
                                       (case prettify receivedHtml of
                                          Inl e \<Rightarrow> Inl e
                                        | Inr prettyReceived \<Rightarrow>
                                            Inr (''Expected Light DOM HTML to equal:'' @ [CHR 0x0A]
                                                   @ prettyExpected @ [CHR 0x0A, CHR 0x0A]
                                                   @ ''Received:'' @ [CHR 0x0A]
                                                   @ prettyReceived))))\<rparr>)))\<close>

text \<open>A result that is an exception of the given class with a message.\<close>

definition signalsTypeError :: "error + 'a \<Rightarrow> bool" where
  "signalsTypeError r = (case r of Inl (TypeError msg) \<Rightarrow> msg \<noteq> [] | _ \<Rightarrow> False)"

definition signalsError :: "error + 'a \<Rightarrow> bool" where
  "signalsError r = (case r of Inl (Error msg) \<Rightarrow> msg \<noteq> [] | _ \<Rightarrow> False)"

text \<open>
  Claim C3, as amended. \<^verbatim>\<open>toEqualHtml\<close> and \<^verbatim>\<open>toEqualLightHtml\<close> return no result but
  throw, with a message, when the received value is \<^verbatim>\<open>null\<close> or \<^verbatim>\<open>undefined\<close> (an
  \<^verbatim>\<open>Error\<close>), when its \<^verbatim>\<open>then\<close> is a function (a \<^verbatim>\<open>TypeError\<close>), and when it is
  neither a string nor an element nor a fragment (a \<^verbatim>\<open>TypeError\<close>).
\<close>

theorem html_matchers_reject_unusable_values:
  "signalsError (toEqualHtml prettify parseInnerHtml ReceivedNull expected)
   \<and> signalsError (toEqualHtml prettify parseInnerHtml ReceivedUndefined expected)
   \<and> signalsTypeError (toEqualHtml prettify parseInnerHtml (ReceivedValue True c) expected)
   \<and> signalsTypeError
       (toEqualHtml prettify parseInnerHtml (ReceivedValue False OtherContent) expected)
   \<and> signalsError (toEqualLightHtml prettify parseInnerHtml ReceivedNull expected)
   \<and> signalsError (toEqualLightHtml prettify parseInnerHtml ReceivedUndefined expected)
   \<and> signalsTypeError
       (toEqualLightHtml prettify parseInnerHtml (ReceivedValue True c) expected)
   \<and> signalsTypeError
       (toEqualLightHtml prettify parseInnerHtml (ReceivedValue False OtherContent) expected)"
  by (simp add: toEqualHtml_def toEqualLightHtml_def signalsError_def signalsTypeError_def)

text \<open>
  Claim C3 as stated fails for \<^verbatim>\<open>null\<close> and \<^verbatim>\<open>undefined\<close>: what is thrown is an
  \<^verbatim>\<open>Error\<close>, not a \<^verbatim>\<open>TypeError\<close>.
\<close>

theorem html_matchers_null_counterexample:
  \<open>toEqualHtml (\<lambda>s. Inr s) (\<lambda>s. s) ReceivedNull ''<div></div>''
     = Inl (Error ''expect.toEqualHtml() received value is "null"'')
   \<and> \<not> signalsTypeError (toEqualHtml (\<lambda>s. Inr s) (\<lambda>s. s) ReceivedNull ''<div></div>'')
   \<and> toEqualLightHtml (\<lambda>s. Inr s) (\<lambda>s. s) ReceivedUndefined ''<div></div>''
     = Inl (Error ''expect.toEqualLightHtml() received value is "undefined"'')
   \<and> \<not> signalsTypeError (toEqualLightHtml (\<lambda>s. Inr s) (\<lambda>s. s) ReceivedUndefined ''<div></div>'')\<close>
  by (simp add: toEqualHtml_def toEqualLightHtml_def signalsTypeError_def)

theorem html_matchers_reject_unusable_values_witness:
  "signalsError (toEqualHtml (\<lambda>s. Inr s) (\<lambda>s. s) ReceivedNull ''<div></div>'')
   \<and> signalsTypeError
       (toEqualHtml (\<lambda>s. Inr s) (\<lambda>s. s)
          (ReceivedValue True (ElementContent (Element None ''DIV'' None None None [])))
          ''<div></div>'')
   \<and> signalsTypeError
       (toEqualLightHtml (\<lambda>s. Inr s) (\<lambda>s. s) (ReceivedValue False OtherContent) ''<div></div>'')"
  using html_matchers_reject_unusable_values
    [of "\<lambda>s. Inr s" "\<lambda>s. s" "''<div></div>''"
        "ElementContent (Element None ''DIV'' None None None [])"]
  by simp

end
